theory Spec2Isabelle
  imports Complex_Main "HOL-Library.Word"
begin

section \<open>Alice's side of the key exchange (apps/alice.py)\<close>

text \<open>
  The program reads two seeds and a listen port from a JSON file, generates a key
  pair, sends the encapsulation key to Bob over TCP, waits for Bob's 768-byte
  ciphertext on its own port and decapsulates it. The embedding keeps the program's
  control flow: every \<open>return\<close>, every exception that can leave a statement and every
  call that can block is a branch. Each run yields the list of observable events in
  program order together with the way the run ends.
\<close>

subsection \<open>Values, exceptions and outcomes\<close>

type_synonym byte = "8 word"

text \<open>
  Python exceptions the program can meet. \<open>OtherError\<close> stands for any other
  subclass of \<open>Exception\<close>; the program names none of them.
\<close>

datatype py_exn =
    FileNotFoundError
  | ConnectionRefusedError
  | AttributeError
  | TypeError
  | ValueError
  | IndexError
  | OtherError string

text \<open>
  A call returns a value, raises, or never returns (a blocking socket call without a
  timeout, or a library call that never ends).
\<close>

datatype 'a outcome = Returns 'a | Raises py_exn | Blocks

text \<open>
  A Python float: a finite value (every IEEE double is a rational), an infinity or a
  NaN; \<open>json.load\<close> produces all of them.
\<close>

datatype py_float = Finite rat | PosInf | NegInf | NaN

text \<open>
  What \<open>json.load\<close> returns. JSON \<open>null\<close> is Python's \<open>None\<close>. A dict is an
  association list in which the first binding of a key is the dict's binding.
\<close>

datatype json =
    JNull
  | JBool bool
  | JInt int
  | JFloat py_float
  | JStr string
  | JArr "json list"
  | JObj "(string \<times> json) list"

text \<open>\<open>x.get(key, default)\<close>: only a dict has the method.\<close>

definition py_get :: "json \<Rightarrow> string \<Rightarrow> json \<Rightarrow> json outcome" where
  "py_get x key dflt =
     (case x of
        JObj kv \<Rightarrow> Returns (case map_of kv key of None \<Rightarrow> dflt | Some v \<Rightarrow> v)
      | _ \<Rightarrow> Raises AttributeError)"

text \<open>The truth value of an object in \<open>if x:\<close>.\<close>

fun py_truthy :: "json \<Rightarrow> bool" where
  "py_truthy JNull = False"
| "py_truthy (JBool b) = b"
| "py_truthy (JInt i) = (i \<noteq> 0)"
| "py_truthy (JFloat f) = (f \<noteq> Finite 0)"
| "py_truthy (JStr s) = (s \<noteq> [])"
| "py_truthy (JArr xs) = (xs \<noteq> [])"
| "py_truthy (JObj kv) = (kv \<noteq> [])"

text \<open>
  \<open>x < n\<close> for an integer \<open>n\<close>: numbers compare by value (\<open>True\<close> is 1, \<open>False\<close>
  is 0, a NaN is below nothing), every other operand raises \<open>TypeError\<close>.
\<close>

fun py_less_int :: "json \<Rightarrow> int \<Rightarrow> bool outcome" where
  "py_less_int (JInt i) n = Returns (i < n)"
| "py_less_int (JBool b) n = Returns ((if b then 1 else 0) < n)"
| "py_less_int (JFloat (Finite r)) n = Returns (r < of_int n)"
| "py_less_int (JFloat NegInf) n = Returns True"
| "py_less_int (JFloat PosInf) n = Returns False"
| "py_less_int (JFloat NaN) n = Returns False"
| "py_less_int JNull n = Raises TypeError"
| "py_less_int (JStr s) n = Raises TypeError"
| "py_less_int (JArr xs) n = Raises TypeError"
| "py_less_int (JObj kv) n = Raises TypeError"

subsection \<open>Library functions on strings\<close>

text \<open>\<open>s.split(sep)\<close> for a one-character separator: never an empty list.\<close>

fun split_on :: "char \<Rightarrow> string \<Rightarrow> string list" where
  "split_on sep [] = ['''']"
| "split_on sep (c # cs) =
     (if c = sep then [] # split_on sep cs
      else (case split_on sep cs of
              [] \<Rightarrow> [c # []]
            | p # ps \<Rightarrow> (c # p) # ps))"

text \<open>\<open>xs[i]\<close> for a non-negative literal index.\<close>

definition py_index :: "'a list \<Rightarrow> nat \<Rightarrow> 'a outcome" where
  "py_index xs i = (if i < length xs then Returns (xs ! i) else Raises IndexError)"

text \<open>
  \<open>bytearray.fromhex\<close>: ASCII whitespace is skipped before each byte, a byte is two
  adjacent hexadecimal digits, anything else raises \<open>ValueError\<close>.
\<close>

definition is_space :: "char \<Rightarrow> bool" where
  "is_space c = (let n = (of_char c :: nat) in n = 32 \<or> (9 \<le> n \<and> n \<le> 13))"

definition hex_digit :: "char \<Rightarrow> nat option" where
  "hex_digit c =
     (let n = (of_char c :: nat) in
      if 48 \<le> n \<and> n \<le> 57 then Some (n - 48)
      else if 97 \<le> n \<and> n \<le> 102 then Some (n - 87)
      else if 65 \<le> n \<and> n \<le> 70 then Some (n - 55)
      else None)"

fun fromhex :: "string \<Rightarrow> byte list outcome" where
  "fromhex [] = Returns []"
| "fromhex [c] = (if is_space c then Returns [] else Raises ValueError)"
| "fromhex (c # c' # cs) =
     (if is_space c then fromhex (c' # cs)
      else (case hex_digit c of
              None \<Rightarrow> Raises ValueError
            | Some hi \<Rightarrow>
                (case hex_digit c' of
                   None \<Rightarrow> Raises ValueError
                 | Some lo \<Rightarrow>
                     (case fromhex cs of
                        Returns bs \<Rightarrow> Returns (of_nat (16 * hi + lo) # bs)
                      | Raises e \<Rightarrow> Raises e
                      | Blocks \<Rightarrow> Blocks))))"

text \<open>The argument of \<open>fromhex\<close> must be a \<open>str\<close>.\<close>

definition py_fromhex :: "json \<Rightarrow> byte list outcome" where
  "py_fromhex x = (case x of JStr s \<Rightarrow> fromhex s | _ \<Rightarrow> Raises TypeError)"

subsection \<open>The environment of a run\<close>

text \<open>
  An accepted connection: the bytes the peer sends, in order; the sizes in which the
  transport hands them over (a size of 0 counts as 1, and when the list is used up
  everything left is available at once); and what happens when the bytes are used
  up: the peer closes, stays silent with the connection open, or the connection
  fails.
\<close>

datatype peer_end = PeerCloses | PeerHangs | PeerFails py_exn

record conn =
  incoming :: "byte list"
  deliveries :: "nat list"
  ending :: peer_end

text \<open>
  \<open>conn.recv(n)\<close>: at most \<open>n\<close> bytes, at least one unless the peer has closed, in
  which case the empty byte string.
\<close>

definition recv :: "conn \<Rightarrow> nat \<Rightarrow> (byte list \<times> conn) outcome" where
  "recv c n =
     (if n = 0 then Returns ([], c)
      else if incoming c = [] then
        (case ending c of
           PeerCloses \<Rightarrow> Returns ([], c)
         | PeerHangs \<Rightarrow> Blocks
         | PeerFails e \<Rightarrow> Raises e)
      else
        (let avail = (case deliveries c of [] \<Rightarrow> length (incoming c) | m # _ \<Rightarrow> max 1 m);
             k = min n avail
         in Returns (take k (incoming c),
                     c\<lparr>incoming := drop k (incoming c), deliveries := tl (deliveries c)\<rparr>)))"

text \<open>
  Everything outside the file: the parsed command line, the file system with the JSON
  parser, the KEM library (the object built on line 87, with its \<open>KeyGen\<close> and
  \<open>Decaps\<close>), the built-in \<open>int\<close>, and the network. Building the KEM object and
  creating and closing a socket are taken to succeed without an event.
\<close>

record world =
  arg_params :: string
  arg_address :: "string option"
  load_json :: "string \<Rightarrow> json outcome"
  KeyGen :: "byte list \<Rightarrow> byte list \<Rightarrow> (byte list \<times> byte list) outcome"
  Decaps :: "byte list \<Rightarrow> byte list \<Rightarrow> byte list outcome"
  py_int :: "string \<Rightarrow> int outcome"
  sock_connect :: "string \<Rightarrow> int \<Rightarrow> unit outcome"
  sock_sendall :: "byte list \<Rightarrow> unit outcome"
  sock_bind :: "string \<Rightarrow> json \<Rightarrow> unit outcome"
  sock_listen :: "unit outcome"
  sock_accept :: "conn outcome"

subsection \<open>Observable events\<close>

datatype level = Debug | Warning | Error

text \<open>One constructor per logging call of \<open>main\<close>, with the values it interpolates.\<close>

datatype msg =
    ParsingParameters
  | StartingAlice
  | LoadingSeeds string
  | ParamFileNotFound string
  | MissingParameters string
  | GeneratingKeyPair
  | NoAddressForBob
  | SendingEk string int
  | AmountOfData nat
  | FailedSendingEk string int
  | NoConnectionSection string
  | PortNotUsable json
  | WaitingForBob
  | GotBobResponse
  | SharedSecretObtained
  | SharedSecretIs "byte list"

text \<open>
  A call that leaves the program is an event; \<open>Recv n\<close> is the call \<open>recv(n)\<close> and
  \<open>RecvData data\<close> the byte string it returned.
\<close>

datatype event =
    Log level msg
  | PrintArgs string "string option"
  | LoadJson string
  | KeyGenCall "byte list" "byte list"
  | Connect string int
  | SendAll "byte list"
  | CloseOut
  | Bind string json
  | Listen
  | Accept
  | Recv nat
  | RecvData "byte list"
  | CloseConn
  | CloseListen
  | DecapsCall "byte list" "byte list"

type_synonym 'a run = "event list \<times> 'a outcome"

subsection \<open>send_ek_to_bob\<close>

text \<open>
  The \<open>with\<close> block closes the socket on every path; \<open>except ConnectionRefusedError\<close>
  covers both calls inside the \<open>try\<close>.
\<close>

definition refused_to_False :: "py_exn \<Rightarrow> bool outcome" where
  "refused_to_False e = (if e = ConnectionRefusedError then Returns False else Raises e)"

definition send_ek_to_bob :: "world \<Rightarrow> string \<Rightarrow> int \<Rightarrow> byte list \<Rightarrow> bool run" where
  "send_ek_to_bob w address port ek =
     (case sock_connect w address port of
        Raises e \<Rightarrow> ([Connect address port, CloseOut], refused_to_False e)
      | Blocks \<Rightarrow> ([Connect address port], Blocks)
      | Returns _ \<Rightarrow>
          (case sock_sendall w ek of
             Raises e \<Rightarrow> ([Connect address port, SendAll ek, CloseOut], refused_to_False e)
           | Blocks \<Rightarrow> ([Connect address port, SendAll ek], Blocks)
           | Returns _ \<Rightarrow> ([Connect address port, SendAll ek, CloseOut], Returns True)))"

subsection \<open>wait_for_bob_response\<close>

definition CIPHER_TEXT_SIZE_IN_BYTES :: nat where
  "CIPHER_TEXT_SIZE_IN_BYTES = 768"

text \<open>
  The \<open>while\<close> loop, started with the connection and the bytes accumulated so far.
  It ends because every iteration that continues has appended at least one byte.
\<close>

function recv_loop :: "conn \<Rightarrow> byte list \<Rightarrow> byte list run" where
  "recv_loop c cipher_text =
     (if length cipher_text < CIPHER_TEXT_SIZE_IN_BYTES then
        (let n = CIPHER_TEXT_SIZE_IN_BYTES - length cipher_text in
         case recv c n of
           Raises e \<Rightarrow> ([Recv n], Raises e)
         | Blocks \<Rightarrow> ([Recv n], Blocks)
         | Returns (data, c') \<Rightarrow>
             if data = [] then ([Recv n, RecvData data], Returns cipher_text)
             else (case recv_loop c' (cipher_text @ data) of
                     (evs, r) \<Rightarrow> (Recv n # RecvData data # evs, r)))
      else ([], Returns cipher_text))"
  by pat_completeness auto
termination
  by (relation "measure (\<lambda>(c, cipher_text). CIPHER_TEXT_SIZE_IN_BYTES - length cipher_text)")
     (auto intro: diff_less_mono2)

declare recv_loop.simps [simp del]

definition wait_for_bob_response :: "world \<Rightarrow> json \<Rightarrow> byte list run" where
  "wait_for_bob_response w port =
     (case sock_bind w ''localhost'' port of
        Raises e \<Rightarrow> ([Bind ''localhost'' port, CloseListen], Raises e)
      | Blocks \<Rightarrow> ([Bind ''localhost'' port], Blocks)
      | Returns _ \<Rightarrow>
          (case sock_listen w of
             Raises e \<Rightarrow> ([Bind ''localhost'' port, Listen, CloseListen], Raises e)
           | Blocks \<Rightarrow> ([Bind ''localhost'' port, Listen], Blocks)
           | Returns _ \<Rightarrow>
               (case sock_accept w of
                  Raises e \<Rightarrow>
                    ([Bind ''localhost'' port, Listen, Accept, CloseListen], Raises e)
                | Blocks \<Rightarrow> ([Bind ''localhost'' port, Listen, Accept], Blocks)
                | Returns alice_conn \<Rightarrow>
                    (case recv_loop alice_conn [] of
                       (evs, Blocks) \<Rightarrow>
                         ([Bind ''localhost'' port, Listen, Accept] @ evs, Blocks)
                     | (evs, r) \<Rightarrow>
                         ([Bind ''localhost'' port, Listen, Accept] @ evs
                            @ [CloseConn, CloseListen], r)))))"

subsection \<open>main\<close>

text \<open>
  \<open>main\<close> is given in six parts, each the statements of the source from one point
  to the end of the function, so that every early \<open>return\<close> ends the run where the
  source ends it. A part takes the events so far and the local variables that are
  live at its first statement.
\<close>

text \<open>Lines 128 to 137: the ciphertext is awaited and decapsulated.\<close>

definition main_receive :: "world \<Rightarrow> event list \<Rightarrow> byte list \<Rightarrow> json \<Rightarrow> int run" where
  "main_receive w tr dk listen_port =
     (case wait_for_bob_response w listen_port of
        (evs, Raises e) \<Rightarrow> (tr @ [Log Debug WaitingForBob] @ evs, Raises e)
      | (evs, Blocks) \<Rightarrow> (tr @ [Log Debug WaitingForBob] @ evs, Blocks)
      | (evs, Returns ciphered_text) \<Rightarrow>
          (case Decaps w dk ciphered_text of
             Raises e \<Rightarrow>
               (tr @ [Log Debug WaitingForBob] @ evs
                  @ [Log Debug GotBobResponse, DecapsCall dk ciphered_text],
                Raises e)
           | Blocks \<Rightarrow>
               (tr @ [Log Debug WaitingForBob] @ evs
                  @ [Log Debug GotBobResponse, DecapsCall dk ciphered_text],
                Blocks)
           | Returns alice_k \<Rightarrow>
               (tr @ [Log Debug WaitingForBob] @ evs
                  @ [Log Debug GotBobResponse, DecapsCall dk ciphered_text,
                     Log Debug SharedSecretObtained, Log Debug (SharedSecretIs alice_k)],
                Returns 0)))"

text \<open>
  Lines 117 to 126: the \<open>connections\<close> section and the listen port are read only
  here, after the key has been sent.
\<close>

definition main_listen :: "world \<Rightarrow> event list \<Rightarrow> json \<Rightarrow> byte list \<Rightarrow> int run" where
  "main_listen w tr params dk =
     (case py_get params ''connections'' JNull of
        Raises e \<Rightarrow> (tr, Raises e)
      | Blocks \<Rightarrow> (tr, Blocks)
      | Returns connections \<Rightarrow>
          if py_truthy connections then
            (case py_get connections ''port'' (JInt 0) of
               Raises e \<Rightarrow> (tr, Raises e)
             | Blocks \<Rightarrow> (tr, Blocks)
             | Returns listen_port \<Rightarrow>
                 (case py_less_int listen_port 1024 of
                    Raises e \<Rightarrow> (tr, Raises e)
                  | Blocks \<Rightarrow> (tr, Blocks)
                  | Returns below \<Rightarrow>
                      if below then
                        (tr @ [Log Error (PortNotUsable listen_port)], Returns 1)
                      else main_receive w tr dk listen_port))
          else (tr @ [Log Error (NoConnectionSection (arg_params w))], Returns 1))"

text \<open>Lines 109 to 115: the address is split at every colon and the key is sent.\<close>

definition main_send ::
    "world \<Rightarrow> event list \<Rightarrow> json \<Rightarrow> byte list \<Rightarrow> byte list \<Rightarrow> string \<Rightarrow> int run" where
  "main_send w tr params ek dk bob_address_full =
     (case py_index (split_on CHR '':'' bob_address_full) 0 of
        Raises e \<Rightarrow> (tr, Raises e)
      | Blocks \<Rightarrow> (tr, Blocks)
      | Returns bob_address \<Rightarrow>
          (case py_index (split_on CHR '':'' bob_address_full) 1 of
             Raises e \<Rightarrow> (tr, Raises e)
           | Blocks \<Rightarrow> (tr, Blocks)
           | Returns port_text \<Rightarrow>
               (case py_int w port_text of
                  Raises e \<Rightarrow> (tr, Raises e)
                | Blocks \<Rightarrow> (tr, Blocks)
                | Returns bob_port \<Rightarrow>
                    (let tr' = tr @ [Log Debug (SendingEk bob_address bob_port),
                                     Log Debug (AmountOfData (length ek))]
                     in case send_ek_to_bob w bob_address bob_port ek of
                          (evs, Raises e) \<Rightarrow> (tr' @ evs, Raises e)
                        | (evs, Blocks) \<Rightarrow> (tr' @ evs, Blocks)
                        | (evs, Returns sent) \<Rightarrow>
                            if \<not> sent then
                              (tr' @ evs @ [Log Error (FailedSendingEk bob_address bob_port)],
                               Returns 1)
                            else main_listen w (tr' @ evs) params dk))))"

text \<open>Lines 101 to 107: the key pair is generated before the address is looked at.\<close>

definition main_keygen ::
    "world \<Rightarrow> event list \<Rightarrow> json \<Rightarrow> byte list \<Rightarrow> byte list \<Rightarrow> int run" where
  "main_keygen w tr params d z =
     (case KeyGen w d z of
        Raises e \<Rightarrow> (tr @ [Log Warning GeneratingKeyPair, KeyGenCall d z], Raises e)
      | Blocks \<Rightarrow> (tr @ [Log Warning GeneratingKeyPair, KeyGenCall d z], Blocks)
      | Returns (ek, dk) \<Rightarrow>
          (case arg_address w of
             None \<Rightarrow>
               (tr @ [Log Warning GeneratingKeyPair, KeyGenCall d z, Log Error NoAddressForBob],
                Returns 1)
           | Some bob_address_full \<Rightarrow>
               main_send w (tr @ [Log Warning GeneratingKeyPair, KeyGenCall d z])
                 params ek dk bob_address_full))"

text \<open>
  Lines 91 to 99: only the absence of a seed is checked; \<open>fromhex\<close> is called
  outside any \<open>try\<close>.
\<close>

definition main_seeds :: "world \<Rightarrow> event list \<Rightarrow> json \<Rightarrow> int run" where
  "main_seeds w tr params =
     (case py_get params ''d'' JNull of
        Raises e \<Rightarrow> (tr, Raises e)
      | Blocks \<Rightarrow> (tr, Blocks)
      | Returns d \<Rightarrow>
          (case py_get params ''z'' JNull of
             Raises e \<Rightarrow> (tr, Raises e)
           | Blocks \<Rightarrow> (tr, Blocks)
           | Returns z \<Rightarrow>
               if d = JNull \<or> z = JNull then
                 (tr @ [Log Error (MissingParameters (arg_params w))], Returns 1)
               else
                 (case py_fromhex d of
                    Raises e \<Rightarrow> (tr, Raises e)
                  | Blocks \<Rightarrow> (tr, Blocks)
                  | Returns d' \<Rightarrow>
                      (case py_fromhex z of
                         Raises e \<Rightarrow> (tr, Raises e)
                       | Blocks \<Rightarrow> (tr, Blocks)
                       | Returns z' \<Rightarrow> main_keygen w tr params d' z'))))"

text \<open>Lines 70 to 85: only \<open>FileNotFoundError\<close> is caught around the load.\<close>

definition main_start :: "world \<Rightarrow> event list" where
  "main_start w =
     [Log Debug ParsingParameters,
      PrintArgs (arg_params w) (arg_address w),
      Log Debug StartingAlice,
      Log Debug (LoadingSeeds (arg_params w)),
      LoadJson (arg_params w)]"

definition main :: "world \<Rightarrow> int run" where
  "main w =
     (case load_json w (arg_params w) of
        Raises e \<Rightarrow>
          if e = FileNotFoundError then
            (main_start w @ [Log Error (ParamFileNotFound (arg_params w))], Returns 1)
          else (main_start w, Raises e)
      | Blocks \<Rightarrow> (main_start w, Blocks)
      | Returns params \<Rightarrow> main_seeds w (main_start w) params)"

text \<open>
  \<open>sys.exit(main())\<close>: the status is the returned integer; an exception that leaves
  \<open>main\<close> ends the interpreter with status 1 after a traceback; a run that blocks
  has no status.
\<close>

fun exit_status :: "int outcome \<Rightarrow> int option" where
  "exit_status (Returns n) = Some n"
| "exit_status (Raises e) = Some 1"
| "exit_status Blocks = None"

subsection \<open>Points a run reaches\<close>

text \<open>
  The conditions under which a run arrives at a given statement of \<open>main\<close>, with the
  values of the local variables there. They are stated on the environment alone.
\<close>

text \<open>
  Line 101 is reached with seeds \<open>d\<close> and \<open>z\<close>: the file holds a dict in which
  both keys are bound to strings that \<open>fromhex\<close> decodes.
\<close>

definition seeds_loaded :: "world \<Rightarrow> (string \<times> json) list \<Rightarrow> byte list \<Rightarrow> byte list \<Rightarrow> bool" where
  "seeds_loaded w kv d z \<longleftrightarrow>
     load_json w (arg_params w) = Returns (JObj kv) \<and>
     map_option py_fromhex (map_of kv ''d'') = Some (Returns d) \<and>
     map_option py_fromhex (map_of kv ''z'') = Some (Returns z)"

text \<open>Line 104 is reached with the key pair \<open>(ek, dk)\<close>.\<close>

definition keys_generated ::
    "world \<Rightarrow> (string \<times> json) list \<Rightarrow> byte list \<Rightarrow> byte list \<Rightarrow> byte list \<Rightarrow> byte list \<Rightarrow> bool" where
  "keys_generated w kv d z ek dk \<longleftrightarrow>
     seeds_loaded w kv d z \<and> KeyGen w d z = Returns (ek, dk)"

text \<open>Lines 109 and 110 yield \<open>bob_address = host\<close> and \<open>bob_port = p\<close>.\<close>

definition peer_parsed :: "world \<Rightarrow> string \<Rightarrow> int \<Rightarrow> bool" where
  "peer_parsed w host p \<longleftrightarrow>
     (case arg_address w of
        None \<Rightarrow> False
      | Some bob_address_full \<Rightarrow>
          (let parts = split_on CHR '':'' bob_address_full
           in 1 < length parts \<and> parts ! 0 = host \<and> py_int w (parts ! 1) = Returns p))"

text \<open>
  Line 117 is reached: the key pair exists, the address was parsed and both socket
  calls of \<open>send_ek_to_bob\<close> returned.
\<close>

definition ek_delivered ::
    "world \<Rightarrow> (string \<times> json) list \<Rightarrow> byte list \<Rightarrow> byte list \<Rightarrow> byte list \<Rightarrow> byte list
       \<Rightarrow> string \<Rightarrow> int \<Rightarrow> bool" where
  "ek_delivered w kv d z ek dk host p \<longleftrightarrow>
     keys_generated w kv d z ek dk \<and> peer_parsed w host p \<and>
     sock_connect w host p = Returns () \<and> sock_sendall w ek = Returns ()"

text \<open>A string that \<open>fromhex\<close> accepts.\<close>

definition valid_hex :: "string \<Rightarrow> bool" where
  "valid_hex s \<longleftrightarrow> (case fromhex s of Returns _ \<Rightarrow> True | _ \<Rightarrow> False)"

text \<open>The events of a run up to line 103 and up to line 116.\<close>

definition trace_to_keygen :: "world \<Rightarrow> byte list \<Rightarrow> byte list \<Rightarrow> event list" where
  "trace_to_keygen w d z = main_start w @ [Log Warning GeneratingKeyPair, KeyGenCall d z]"

definition trace_to_listen ::
    "world \<Rightarrow> byte list \<Rightarrow> byte list \<Rightarrow> byte list \<Rightarrow> string \<Rightarrow> int \<Rightarrow> event list" where
  "trace_to_listen w d z ek host p =
     trace_to_keygen w d z @
     [Log Debug (SendingEk host p), Log Debug (AmountOfData (length ek)),
      Connect host p, SendAll ek, CloseOut]"

text \<open>The kinds of events that lines 117 to 137 can add when the key is \<open>dk\<close>.\<close>

fun listen_event :: "byte list \<Rightarrow> event \<Rightarrow> bool" where
  "listen_event dk (Log l m) = True"
| "listen_event dk (Bind host port) = True"
| "listen_event dk Listen = True"
| "listen_event dk Accept = True"
| "listen_event dk (Recv n) = True"
| "listen_event dk (RecvData data) = True"
| "listen_event dk CloseConn = True"
| "listen_event dk CloseListen = True"
| "listen_event dk (DecapsCall k c) = (k = dk)"
| "listen_event dk _ = False"

text \<open>The number of bytes that the \<open>recv\<close> calls among the events have returned.\<close>

fun received :: "event list \<Rightarrow> nat" where
  "received [] = 0"
| "received (RecvData data # evs) = length data + received evs"
| "received (_ # evs) = received evs"

text \<open>The events that are no call of \<open>Decaps\<close>.\<close>

fun before_decaps :: "event \<Rightarrow> bool" where
  "before_decaps (DecapsCall k c) = False"
| "before_decaps _ = True"

text \<open>
  Lines 132 to 135: the events of a run from the call of \<open>Decaps\<close> on. When the
  call returns, the shared secret is logged.
\<close>

definition decaps_tail :: "world \<Rightarrow> byte list \<Rightarrow> byte list \<Rightarrow> event list" where
  "decaps_tail w dk ciphered_text =
     DecapsCall dk ciphered_text #
     (case Decaps w dk ciphered_text of
        Returns alice_k \<Rightarrow>
          [Log Debug SharedSecretObtained, Log Debug (SharedSecretIs alice_k)]
      | _ \<Rightarrow> [])"

text \<open>The byte strings a run writes to a socket, in order.\<close>

fun socket_writes :: "event list \<Rightarrow> byte list list" where
  "socket_writes [] = []"
| "socket_writes (SendAll data # evs) = data # socket_writes evs"
| "socket_writes (_ # evs) = socket_writes evs"

text \<open>The same environment with another decapsulation key for every key pair.\<close>

definition with_dk :: "(byte list \<Rightarrow> byte list) \<Rightarrow> world \<Rightarrow> world" where
  "with_dk f w =
     w\<lparr>KeyGen := (\<lambda>d z. case KeyGen w d z of
                           Returns (ek, dk) \<Rightarrow> Returns (ek, f dk)
                         | Raises e \<Rightarrow> Raises e
                         | Blocks \<Rightarrow> Blocks)\<rparr>"

subsection \<open>Example environments\<close>

text \<open>An unsigned decimal numeral, as \<open>int\<close> reads it; the example port parser.\<close>

fun digits_value :: "string \<Rightarrow> nat \<Rightarrow> nat option" where
  "digits_value [] acc = Some acc"
| "digits_value (c # cs) acc =
     (let n = (of_char c :: nat)
      in if 48 \<le> n \<and> n \<le> 57 then digits_value cs (10 * acc + (n - 48)) else None)"

definition dec_int :: "string \<Rightarrow> int outcome" where
  "dec_int s =
     (if s = [] then Raises ValueError
      else (case digits_value s 0 of
              None \<Rightarrow> Raises ValueError
            | Some n \<Rightarrow> Returns (int n)))"

definition demo_config :: "(string \<times> json) list" where
  "demo_config =
     [(''d'', JStr ''00''), (''z'', JStr ''11''),
      (''connections'', JObj [(''port'', JInt 5000)])]"

definition demo_conn :: conn where
  "demo_conn =
     \<lparr>incoming = replicate 768 7 @ [8, 9], deliveries = [500], ending = PeerCloses\<rparr>"

text \<open>
  A run in which everything works: the file is found, Bob listens on
  \<open>127.0.0.1:6000\<close> and answers with 770 bytes, of which 500 arrive first. The
  key functions are stand-ins with the right shape.
\<close>

definition demo_world :: world where
  "demo_world =
     \<lparr>arg_params = ''alice_params.json'',
      arg_address = Some ''127.0.0.1:6000'',
      load_json = (\<lambda>path. if path = ''alice_params.json'' then Returns (JObj demo_config)
                           else Raises FileNotFoundError),
      KeyGen = (\<lambda>d z. Returns (d @ z, z @ d)),
      Decaps = (\<lambda>dk c. Returns (take 32 c)),
      py_int = dec_int,
      sock_connect = (\<lambda>host port. Returns ()),
      sock_sendall = (\<lambda>data. Returns ()),
      sock_bind = (\<lambda>host port. Returns ()),
      sock_listen = Returns (),
      sock_accept = Returns demo_conn\<rparr>"

text \<open>The same run with another content of the parameter file.\<close>

definition demo_with :: "(string \<times> json) list \<Rightarrow> world" where
  "demo_with kv = demo_world\<lparr>load_json := (\<lambda>path. Returns (JObj kv))\<rparr>"

section \<open>Properties\<close>

subsection \<open>The receive loop\<close>

lemma recv_data:
  assumes "0 < n" "incoming c \<noteq> []"
  shows "\<exists>k c'. recv c n = Returns (take k (incoming c), c') \<and> 0 < k \<and> k \<le> n
           \<and> take k (incoming c) \<noteq> []
           \<and> incoming c' = drop k (incoming c) \<and> ending c' = ending c"
proof -
  define k where "k = min n (case deliveries c of [] \<Rightarrow> length (incoming c) | m # _ \<Rightarrow> max 1 m)"
  have "0 < (case deliveries c of [] \<Rightarrow> length (incoming c) | m # _ \<Rightarrow> max 1 m)"
    using assms(2) by (cases "deliveries c") simp_all
  then have k: "0 < k" "k \<le> n" using assms(1) by (simp_all add: k_def)
  have "recv c n = Returns (take k (incoming c),
          c\<lparr>incoming := drop k (incoming c), deliveries := tl (deliveries c)\<rparr>)"
    using assms by (simp add: recv_def k_def Let_def)
  moreover have "take k (incoming c) \<noteq> []" using k assms(2) by simp
  ultimately show ?thesis using k by force
qed

lemma recv_end:
  assumes "0 < n" "incoming c = []"
  shows "recv c n = (case ending c of PeerCloses \<Rightarrow> Returns ([], c) | PeerHangs \<Rightarrow> Blocks
                      | PeerFails e \<Rightarrow> Raises e)"
  using assms by (simp add: recv_def)

lemma recv_loop_done:
  "\<not> length ct < CIPHER_TEXT_SIZE_IN_BYTES \<Longrightarrow> recv_loop c ct = ([], Returns ct)"
  by (subst recv_loop.simps) simp

lemma recv_loop_stop:
  "length ct < CIPHER_TEXT_SIZE_IN_BYTES
   \<Longrightarrow> recv c (CIPHER_TEXT_SIZE_IN_BYTES - length ct) = Returns ([], c')
   \<Longrightarrow> recv_loop c ct =
         ([Recv (CIPHER_TEXT_SIZE_IN_BYTES - length ct), RecvData []], Returns ct)"
  by (subst recv_loop.simps) simp

lemma recv_loop_raises:
  "length ct < CIPHER_TEXT_SIZE_IN_BYTES
   \<Longrightarrow> recv c (CIPHER_TEXT_SIZE_IN_BYTES - length ct) = Raises e
   \<Longrightarrow> recv_loop c ct = ([Recv (CIPHER_TEXT_SIZE_IN_BYTES - length ct)], Raises e)"
  by (subst recv_loop.simps) simp

lemma recv_loop_blocks:
  "length ct < CIPHER_TEXT_SIZE_IN_BYTES
   \<Longrightarrow> recv c (CIPHER_TEXT_SIZE_IN_BYTES - length ct) = Blocks
   \<Longrightarrow> recv_loop c ct = ([Recv (CIPHER_TEXT_SIZE_IN_BYTES - length ct)], Blocks)"
  by (subst recv_loop.simps) simp

lemma recv_loop_step:
  "length ct < CIPHER_TEXT_SIZE_IN_BYTES
   \<Longrightarrow> recv c (CIPHER_TEXT_SIZE_IN_BYTES - length ct) = Returns (data, c')
   \<Longrightarrow> data \<noteq> []
   \<Longrightarrow> recv_loop c ct =
         (Recv (CIPHER_TEXT_SIZE_IN_BYTES - length ct) # RecvData data #
            fst (recv_loop c' (ct @ data)),
          snd (recv_loop c' (ct @ data)))"
  by (subst recv_loop.simps) (simp add: split_beta)

lemma recv_loop_short:
  "ending c = PeerCloses \<Longrightarrow> length ct + length (incoming c) < CIPHER_TEXT_SIZE_IN_BYTES
   \<Longrightarrow> snd (recv_loop c ct) = Returns (ct @ incoming c)"
proof (induction c ct rule: recv_loop.induct)
  case (1 c ct)
  have n: "length ct < CIPHER_TEXT_SIZE_IN_BYTES" "0 < CIPHER_TEXT_SIZE_IN_BYTES - length ct"
    using "1.prems" by simp_all
  show ?case
  proof (cases "incoming c = []")
    case True
    with "1.prems" n show ?thesis
      by (simp add: recv_loop_stop recv_end)
  next
    case False
    from recv_data[OF n(2) False] obtain k c' where
      r: "recv c (CIPHER_TEXT_SIZE_IN_BYTES - length ct) = Returns (take k (incoming c), c')"
      and k: "0 < k" "k \<le> CIPHER_TEXT_SIZE_IN_BYTES - length ct" "take k (incoming c) \<noteq> []"
      and c': "incoming c' = drop k (incoming c)" "ending c' = ending c"
      by blast
    have "snd (recv_loop c' (ct @ take k (incoming c)))
            = Returns ((ct @ take k (incoming c)) @ incoming c')"
      using "1.IH"[OF n(1) refl r refl k(3)] "1.prems" c' by simp
    then show ?thesis
      using n r k c' by (simp add: recv_loop_step)
  qed
qed

lemma recv_loop_full:
  "length ct \<le> CIPHER_TEXT_SIZE_IN_BYTES
   \<Longrightarrow> CIPHER_TEXT_SIZE_IN_BYTES \<le> length ct + length (incoming c)
   \<Longrightarrow> snd (recv_loop c ct) = Returns (take CIPHER_TEXT_SIZE_IN_BYTES (ct @ incoming c))"
proof (induction c ct rule: recv_loop.induct)
  case (1 c ct)
  show ?case
  proof (cases "length ct < CIPHER_TEXT_SIZE_IN_BYTES")
    case False
    with "1.prems" show ?thesis by (simp add: recv_loop_done)
  next
    case True
    then have n: "0 < CIPHER_TEXT_SIZE_IN_BYTES - length ct" by simp
    have ne: "incoming c \<noteq> []" using True "1.prems" by auto
    from recv_data[OF n ne] obtain k c' where
      r: "recv c (CIPHER_TEXT_SIZE_IN_BYTES - length ct) = Returns (take k (incoming c), c')"
      and k: "0 < k" "k \<le> CIPHER_TEXT_SIZE_IN_BYTES - length ct" "take k (incoming c) \<noteq> []"
      and c': "incoming c' = drop k (incoming c)" "ending c' = ending c"
      by blast
    have "snd (recv_loop c' (ct @ take k (incoming c)))
            = Returns (take CIPHER_TEXT_SIZE_IN_BYTES ((ct @ take k (incoming c)) @ incoming c'))"
      using "1.IH"[OF True refl r refl k(3)] "1.prems" c' k by simp
    then show ?thesis
      using True r k c' by (simp add: recv_loop_step)
  qed
qed

lemma recv_loop_bound:
  "length ct \<le> CIPHER_TEXT_SIZE_IN_BYTES \<Longrightarrow> snd (recv_loop c ct) = Returns r
   \<Longrightarrow> length r \<le> CIPHER_TEXT_SIZE_IN_BYTES"
proof (induction c ct rule: recv_loop.induct)
  case (1 c ct)
  show ?case
  proof (cases "length ct < CIPHER_TEXT_SIZE_IN_BYTES")
    case False
    with "1.prems" show ?thesis by (simp add: recv_loop_done)
  next
    case True
    then have n: "0 < CIPHER_TEXT_SIZE_IN_BYTES - length ct" by simp
    show ?thesis
    proof (cases "incoming c = []")
      case e: True
      with "1.prems" True n show ?thesis
        by (cases "ending c") (auto simp: recv_end recv_loop_stop recv_loop_raises recv_loop_blocks)
    next
      case False
      from recv_data[OF n False] obtain k c' where
        r: "recv c (CIPHER_TEXT_SIZE_IN_BYTES - length ct) = Returns (take k (incoming c), c')"
        and k: "0 < k" "k \<le> CIPHER_TEXT_SIZE_IN_BYTES - length ct" "take k (incoming c) \<noteq> []"
        by blast
      have "snd (recv_loop c' (ct @ take k (incoming c))) = Returns r"
        using "1.prems"(2) True r k by (simp add: recv_loop_step)
      moreover have "length (ct @ take k (incoming c)) \<le> CIPHER_TEXT_SIZE_IN_BYTES"
        using k True by simp
      ultimately show ?thesis
        using "1.IH"[OF True refl r refl k(3)] by simp
    qed
  qed
qed

lemma recv_loop_events:
  "e \<in> set (fst (recv_loop c ct)) \<Longrightarrow> (\<exists>n. e = Recv n) \<or> (\<exists>data. e = RecvData data)"
proof (induction c ct rule: recv_loop.induct)
  case (1 c ct)
  show ?case
  proof (cases "length ct < CIPHER_TEXT_SIZE_IN_BYTES")
    case False
    with "1.prems" show ?thesis by (simp add: recv_loop_done)
  next
    case True
    let ?n = "CIPHER_TEXT_SIZE_IN_BYTES - length ct"
    show ?thesis
    proof (cases "recv c ?n")
      case (Returns p)
      obtain data c' where p: "p = (data, c')" by (cases p)
      show ?thesis
      proof (cases "data = []")
        case e: True
        with "1.prems" True Returns p show ?thesis
          by (auto simp: recv_loop_stop)
      next
        case False
        have "e = Recv ?n \<or> e = RecvData data \<or> e \<in> set (fst (recv_loop c' (ct @ data)))"
          using "1.prems" True Returns p False
          by (auto simp: recv_loop_step)
        then show ?thesis
          using "1.IH"[OF True refl Returns p[symmetric] False] by blast
      qed
    next
      case (Raises x)
      with "1.prems" True show ?thesis by (simp add: recv_loop_raises)
    next
      case Blocks
      with "1.prems" True show ?thesis by (simp add: recv_loop_blocks)
    qed
  qed
qed

text \<open>
  The request of every \<open>recv\<close> call of the loop is what lacks to 768 bytes after
  the bytes held at the start and those returned by the earlier calls.
\<close>

lemma recv_loop_requests:
  "i < length (fst (recv_loop c ct)) \<Longrightarrow> fst (recv_loop c ct) ! i = Recv n
   \<Longrightarrow> 0 < n \<and>
       n + (length ct + received (take i (fst (recv_loop c ct)))) = CIPHER_TEXT_SIZE_IN_BYTES"
proof (induction c ct arbitrary: i rule: recv_loop.induct)
  case (1 c ct)
  show ?case
  proof (cases "length ct < CIPHER_TEXT_SIZE_IN_BYTES")
    case False
    with "1.prems" show ?thesis by (simp add: recv_loop_done)
  next
    case True
    let ?n = "CIPHER_TEXT_SIZE_IN_BYTES - length ct"
    show ?thesis
    proof (cases "recv c ?n")
      case (Returns p)
      obtain data c' where p: "p = (data, c')" by (cases p)
      show ?thesis
      proof (cases "data = []")
        case e: True
        with "1.prems" True Returns p show ?thesis
          by (cases i) (auto simp: recv_loop_stop)
      next
        case False
        note step = recv_loop_step[OF True Returns[unfolded p] False]
        show ?thesis
        proof (cases i)
          case 0
          with "1.prems" True show ?thesis by (auto simp: step)
        next
          case (Suc j)
          show ?thesis
          proof (cases j)
            case 0
            with "1.prems" Suc show ?thesis by (simp add: step)
          next
            case (Suc k)
            have "k < length (fst (recv_loop c' (ct @ data)))"
              and "fst (recv_loop c' (ct @ data)) ! k = Recv n"
              using "1.prems" \<open>i = Suc j\<close> Suc by (simp_all add: step)
            from "1.IH"[OF True refl Returns p[symmetric] False this]
            show ?thesis
              using \<open>i = Suc j\<close> Suc by (simp add: step)
          qed
        qed
      qed
    next
      case (Raises x)
      with "1.prems" True show ?thesis by (cases i) (auto simp: recv_loop_raises)
    next
      case Blocks
      with "1.prems" True show ?thesis by (cases i) (auto simp: recv_loop_blocks)
    qed
  qed
qed

text \<open>A \<open>recv\<close> call returns at most the number of bytes it asked for.\<close>

lemma recv_at_most: "recv c n = Returns (data, c') \<Longrightarrow> length data \<le> n"
  by (auto simp: recv_def Let_def split: if_splits peer_end.splits)

lemma recv_loop_answers:
  "Suc i < length (fst (recv_loop c ct)) \<Longrightarrow> fst (recv_loop c ct) ! i = Recv n
   \<Longrightarrow> fst (recv_loop c ct) ! Suc i = RecvData data \<Longrightarrow> length data \<le> n"
proof (induction c ct arbitrary: i rule: recv_loop.induct)
  case (1 c ct)
  show ?case
  proof (cases "length ct < CIPHER_TEXT_SIZE_IN_BYTES")
    case False
    with "1.prems" show ?thesis by (simp add: recv_loop_done)
  next
    case True
    let ?n = "CIPHER_TEXT_SIZE_IN_BYTES - length ct"
    show ?thesis
    proof (cases "recv c ?n")
      case (Returns p)
      obtain d c' where p: "p = (d, c')" by (cases p)
      note le = recv_at_most[OF Returns[unfolded p]]
      show ?thesis
      proof (cases "d = []")
        case e: True
        with "1.prems" True Returns p show ?thesis
          by (cases i) (auto simp: recv_loop_stop)
      next
        case False
        note step = recv_loop_step[OF True Returns[unfolded p] False]
        show ?thesis
        proof (cases i)
          case 0
          with "1.prems" le show ?thesis by (simp add: step)
        next
          case (Suc j)
          show ?thesis
          proof (cases j)
            case 0
            with "1.prems" Suc show ?thesis by (simp add: step)
          next
            case (Suc k)
            have "Suc k < length (fst (recv_loop c' (ct @ d)))"
              and "fst (recv_loop c' (ct @ d)) ! k = Recv n"
              and "fst (recv_loop c' (ct @ d)) ! Suc k = RecvData data"
              using "1.prems" \<open>i = Suc j\<close> Suc by (simp_all add: step)
            from "1.IH"[OF True refl Returns p[symmetric] False this]
            show ?thesis .
          qed
        qed
      qed
    next
      case (Raises x)
      with "1.prems" True show ?thesis by (simp add: recv_loop_raises)
    next
      case Blocks
      with "1.prems" True show ?thesis by (simp add: recv_loop_blocks)
    qed
  qed
qed

subsection \<open>How far a run gets\<close>

lemma fromhex_no_other:
  "fromhex s \<noteq> Blocks \<and> (\<forall>e. fromhex s = Raises e \<longrightarrow> e = ValueError)"
proof (induction s rule: fromhex.induct)
  case 1
  show ?case by simp
next
  case (2 c)
  show ?case by simp
next
  case (3 c c' cs)
  show ?case
  proof (cases "is_space c")
    case True
    with 3(1) show ?thesis by simp
  next
    case False
    show ?thesis
    proof (cases "hex_digit c")
      case None
      with False show ?thesis by simp
    next
      case hi: (Some hi)
      show ?thesis
      proof (cases "hex_digit c'")
        case None
        with False hi show ?thesis by simp
      next
        case (Some lo)
        with False hi 3(2)[OF False hi Some] show ?thesis
          by (cases "fromhex cs") simp_all
      qed
    qed
  qed
qed

lemma fromhex_cases: "fromhex s = Raises ValueError \<or> (\<exists>bs. fromhex s = Returns bs)"
  using fromhex_no_other[of s] by (cases "fromhex s") auto

lemma main_to_keygen:
  assumes "seeds_loaded w kv d z"
  shows "main w = main_keygen w (main_start w) (JObj kv) d z"
proof -
  from assms obtain dj zj where
    l: "load_json w (arg_params w) = Returns (JObj kv)"
    and d: "map_of kv ''d'' = Some dj" "py_fromhex dj = Returns d"
    and z: "map_of kv ''z'' = Some zj" "py_fromhex zj = Returns z"
    by (auto simp: seeds_loaded_def)
  have "dj \<noteq> JNull" "zj \<noteq> JNull" using d z by (auto simp: py_fromhex_def)
  then show ?thesis using l d z by (simp add: main_def main_seeds_def py_get_def)
qed

lemma main_to_send:
  assumes "keys_generated w kv d z ek dk" "arg_address w = Some full"
  shows "main w = main_send w (trace_to_keygen w d z) (JObj kv) ek dk full"
  using assms main_to_keygen[of w kv d z]
  by (simp add: keys_generated_def main_keygen_def trace_to_keygen_def)

lemma send_ek_to_bob_ok:
  "sock_connect w host p = Returns u \<Longrightarrow> sock_sendall w ek = Returns v
   \<Longrightarrow> send_ek_to_bob w host p ek = ([Connect host p, SendAll ek, CloseOut], Returns True)"
  by (simp add: send_ek_to_bob_def)

lemma main_to_listen:
  assumes "ek_delivered w kv d z ek dk host p"
  shows "main w = main_listen w (trace_to_listen w d z ek host p) (JObj kv) dk"
proof -
  from assms have k: "keys_generated w kv d z ek dk" and pp: "peer_parsed w host p"
    and s: "sock_connect w host p = Returns ()" "sock_sendall w ek = Returns ()"
    by (simp_all add: ek_delivered_def)
  from pp obtain full where
    a: "arg_address w = Some full"
    and parts: "1 < length (split_on CHR '':'' full)" "split_on CHR '':'' full ! 0 = host"
      "py_int w (split_on CHR '':'' full ! 1) = Returns p"
    by (auto simp: peer_parsed_def Let_def split: option.splits)
  from parts(1) have "0 < length (split_on CHR '':'' full)" by arith
  then show ?thesis
    using parts s
    by (simp add: main_to_send[OF k a] main_send_def py_index_def send_ek_to_bob_ok
        trace_to_listen_def)
qed

subsection \<open>wait_for_bob_response\<close>

lemma wait_for_bob_response_accepted:
  assumes "sock_bind w ''localhost'' port = Returns ()" "sock_listen w = Returns ()"
    "sock_accept w = Returns c"
  shows "snd (wait_for_bob_response w port) = snd (recv_loop c [])"
  using assms
  by (auto simp: wait_for_bob_response_def split: prod.splits outcome.splits)

lemma wait_for_bob_response_events:
  "e \<in> set (fst (wait_for_bob_response w port))
   \<Longrightarrow> e \<in> {Bind ''localhost'' port, Listen, Accept, CloseConn, CloseListen}
       \<or> (\<exists>c. sock_accept w = Returns c \<and> e \<in> set (fst (recv_loop c [])))"
  by (auto simp: wait_for_bob_response_def split: prod.splits outcome.splits)

lemma wait_for_bob_response_Returns:
  "snd (wait_for_bob_response w port) = Returns r
   \<Longrightarrow> \<exists>c. sock_accept w = Returns c \<and> snd (recv_loop c []) = Returns r"
  by (auto simp: wait_for_bob_response_def split: prod.splits outcome.splits)

lemma recv_demo_conn:
  "recv demo_conn 768 =
     Returns (replicate 500 7,
              \<lparr>incoming = replicate 268 7 @ [8, 9], deliveries = [], ending = PeerCloses\<rparr>)"
  by (simp add: recv_def demo_conn_def Let_def flip: replicate_add)

lemma recv_demo_conn_rest:
  "recv \<lparr>incoming = replicate 268 7 @ [8, 9], deliveries = [], ending = PeerCloses\<rparr> 268 =
     Returns (replicate 268 7, \<lparr>incoming = [8, 9], deliveries = [], ending = PeerCloses\<rparr>)"
  by (simp add: recv_def Let_def)

lemma recv_loop_demo_conn:
  "recv_loop demo_conn [] =
     ([Recv 768, RecvData (replicate 500 7), Recv 268, RecvData (replicate 268 7)],
      Returns (replicate 768 7))"
proof -
  have 3: "recv_loop \<lparr>incoming = [8, 9], deliveries = [], ending = PeerCloses\<rparr>
             (replicate 500 7 @ replicate 268 7) = ([], Returns (replicate 768 7))"
    by (simp add: recv_loop_done CIPHER_TEXT_SIZE_IN_BYTES_def flip: replicate_add)
  have 2: "recv_loop \<lparr>incoming = replicate 268 7 @ [8, 9], deliveries = [],
                       ending = PeerCloses\<rparr> (replicate 500 7) =
             ([Recv 268, RecvData (replicate 268 7)], Returns (replicate 768 7))"
    using recv_loop_step[of "replicate 500 7"
        "\<lparr>incoming = replicate 268 7 @ [8, 9], deliveries = [], ending = PeerCloses\<rparr>"
        "replicate 268 7" "\<lparr>incoming = [8, 9], deliveries = [], ending = PeerCloses\<rparr>"]
    by (simp add: CIPHER_TEXT_SIZE_IN_BYTES_def recv_demo_conn_rest 3)
  show ?thesis
    using recv_loop_step[of "[]" demo_conn "replicate 500 7"
        "\<lparr>incoming = replicate 268 7 @ [8, 9], deliveries = [], ending = PeerCloses\<rparr>"]
    by (simp add: CIPHER_TEXT_SIZE_IN_BYTES_def recv_demo_conn 2)
qed

lemma wait_for_bob_response_demo_world:
  "wait_for_bob_response demo_world port =
     ([Bind ''localhost'' port, Listen, Accept,
       Recv 768, RecvData (replicate 500 7), Recv 268, RecvData (replicate 268 7),
       CloseConn, CloseListen],
      Returns (replicate 768 7))"
  by (simp add: wait_for_bob_response_def demo_world_def recv_loop_demo_conn)

text \<open>
  Claim C2. When the socket is bound, a peer connects, sends fewer than 768 bytes
  and closes, \<open>wait_for_bob_response\<close> returns exactly the bytes sent: it neither
  raises nor blocks, however the transport cuts the bytes into pieces.
\<close>

theorem short_read_is_returned:
  assumes "sock_bind w ''localhost'' port = Returns ()"
    and "sock_listen w = Returns ()"
    and "sock_accept w = Returns c"
    and "ending c = PeerCloses"
    and "length (incoming c) < 768"
  shows "snd (wait_for_bob_response w port) = Returns (incoming c)"
  using assms recv_loop_short[of c "[]"]
  by (simp add: wait_for_bob_response_accepted CIPHER_TEXT_SIZE_IN_BYTES_def)

theorem short_read_is_returned_witness:
  "snd (wait_for_bob_response
          (demo_world\<lparr>sock_accept :=
             Returns \<lparr>incoming = [1, 2, 3], deliveries = [2], ending = PeerCloses\<rparr>\<rparr>)
          (JInt 5000))
     = Returns [1, 2, 3]"
  using short_read_is_returned[of
      "demo_world\<lparr>sock_accept :=
         Returns \<lparr>incoming = [1, 2, 3], deliveries = [2], ending = PeerCloses\<rparr>\<rparr>"
      "JInt 5000" "\<lparr>incoming = [1, 2, 3], deliveries = [2], ending = PeerCloses\<rparr>"]
  by (simp add: demo_world_def)

lemma nth_in_middle:
  assumes "i < length (xs @ evs @ ys)" and "(xs @ evs @ ys) ! i = e"
    and "e \<notin> set xs" and "e \<notin> set ys"
  shows "length xs \<le> i \<and> i - length xs < length evs \<and> evs ! (i - length xs) = e
       \<and> take i (xs @ evs @ ys) = xs @ take (i - length xs) evs"
proof -
  have 1: "length xs \<le> i"
  proof (rule ccontr)
    assume "\<not> length xs \<le> i"
    then have "i < length xs" by simp
    with assms(2) have "e = xs ! i" by (simp add: nth_append)
    with \<open>i < length xs\<close> assms(3) show False by simp
  qed
  have 2: "i - length xs < length evs"
  proof (rule ccontr)
    assume n: "\<not> i - length xs < length evs"
    with 1 assms(2) have "e = ys ! (i - length xs - length evs)"
      by (simp add: nth_append)
    moreover have "i - length xs - length evs < length ys"
      using assms(1) 1 n by simp
    ultimately show False using assms(4) by simp
  qed
  from 1 2 assms(2) show ?thesis by (simp add: nth_append)
qed

text \<open>
  A \<open>recv\<close> call among the events of \<open>wait_for_bob_response\<close> is a call of the
  loop, and the events before it are the three calls on the listening socket and
  the events of the loop before it.
\<close>

lemma wait_for_bob_response_recv:
  assumes "i < length (fst (wait_for_bob_response w port))"
    and "fst (wait_for_bob_response w port) ! i = e"
    and "(\<exists>n. e = Recv n) \<or> (\<exists>data. e = RecvData data)"
  shows "\<exists>c. sock_accept w = Returns c \<and> 3 \<le> i \<and> i - 3 < length (fst (recv_loop c []))
           \<and> fst (recv_loop c []) ! (i - 3) = e
           \<and> take i (fst (wait_for_bob_response w port)) =
               [Bind ''localhost'' port, Listen, Accept] @ take (i - 3) (fst (recv_loop c []))"
proof -
  have no: "e \<in> set (fst (wait_for_bob_response w port))"
    using assms(1,2) by (auto simp: in_set_conv_nth)
  from wait_for_bob_response_events[OF no] assms(3)
  obtain c where c: "sock_accept w = Returns c" by auto
  have b: "\<exists>u. sock_bind w ''localhost'' port = Returns u"
    and l: "\<exists>u. sock_listen w = Returns u"
    using no assms(3)
    by (auto simp: wait_for_bob_response_def split: outcome.splits)
  obtain evs r where rl: "recv_loop c [] = (evs, r)"
    by (cases "recv_loop c []")
  have "\<exists>ys. fst (wait_for_bob_response w port) =
           [Bind ''localhost'' port, Listen, Accept] @ evs @ ys
         \<and> set ys \<subseteq> {CloseConn, CloseListen}"
    using b l c rl by (cases r) (auto simp: wait_for_bob_response_def)
  then obtain ys where
    t: "fst (wait_for_bob_response w port) = [Bind ''localhost'' port, Listen, Accept] @ evs @ ys"
    and ys: "set ys \<subseteq> {CloseConn, CloseListen}"
    by blast
  have "e \<notin> set [Bind ''localhost'' port, Listen, Accept]" and "e \<notin> set ys"
    using assms(3) ys by auto
  from nth_in_middle[OF assms(1,2)[unfolded t] this] c rl t
  show ?thesis by (simp add: numeral_3_eq_3)
qed

text \<open>
  Claim C3. When the accepted connection supplies at least 768 bytes,
  \<open>wait_for_bob_response\<close> returns exactly the first 768 of them, whatever follows
  them and however they are cut into pieces. In every run a returned buffer has at
  most 768 bytes. Every \<open>recv\<close> call asks for the bytes still missing: its request
  and the bytes returned by the calls before it add up to 768, it asks for at least
  one byte, and what it returns is no longer than its request.
\<close>

theorem full_read_is_first_768_bytes:
  "(sock_bind w ''localhost'' port = Returns () \<and> sock_listen w = Returns () \<and>
    sock_accept w = Returns c \<and> 768 \<le> length (incoming c)
      \<longrightarrow> snd (wait_for_bob_response w port) = Returns (take 768 (incoming c)))
   \<and> (snd (wait_for_bob_response w port) = Returns cipher_text
      \<longrightarrow> length cipher_text \<le> 768)
   \<and> (i < length (fst (wait_for_bob_response w port)) \<and>
       fst (wait_for_bob_response w port) ! i = Recv n
      \<longrightarrow> 0 < n \<and> n + received (take i (fst (wait_for_bob_response w port))) = 768)
   \<and> (Suc i < length (fst (wait_for_bob_response w port)) \<and>
       fst (wait_for_bob_response w port) ! i = Recv n \<and>
       fst (wait_for_bob_response w port) ! Suc i = RecvData data
      \<longrightarrow> length data \<le> n)"
proof (intro conjI impI)
  assume "sock_bind w ''localhost'' port = Returns () \<and> sock_listen w = Returns () \<and>
    sock_accept w = Returns c \<and> 768 \<le> length (incoming c)"
  then show "snd (wait_for_bob_response w port) = Returns (take 768 (incoming c))"
    using recv_loop_full[of "[]" c]
    by (simp add: wait_for_bob_response_accepted CIPHER_TEXT_SIZE_IN_BYTES_def)
next
  assume "snd (wait_for_bob_response w port) = Returns cipher_text"
  then obtain c' where "snd (recv_loop c' []) = Returns cipher_text"
    using wait_for_bob_response_Returns by blast
  then show "length cipher_text \<le> 768"
    using recv_loop_bound[of "[]" c' cipher_text] by (simp add: CIPHER_TEXT_SIZE_IN_BYTES_def)
next
  assume a: "i < length (fst (wait_for_bob_response w port)) \<and>
       fst (wait_for_bob_response w port) ! i = Recv n"
  then obtain c' where j: "i - 3 < length (fst (recv_loop c' []))"
    "fst (recv_loop c' []) ! (i - 3) = Recv n"
    and t: "take i (fst (wait_for_bob_response w port)) =
             [Bind ''localhost'' port, Listen, Accept] @ take (i - 3) (fst (recv_loop c' []))"
    using wait_for_bob_response_recv[of i w port "Recv n"] by auto
  from recv_loop_requests[OF j]
  show "0 < n" "n + received (take i (fst (wait_for_bob_response w port))) = 768"
    by (simp_all add: t CIPHER_TEXT_SIZE_IN_BYTES_def)
next
  assume a: "Suc i < length (fst (wait_for_bob_response w port)) \<and>
       fst (wait_for_bob_response w port) ! i = Recv n \<and>
       fst (wait_for_bob_response w port) ! Suc i = RecvData data"
  then obtain c1 where 1: "sock_accept w = Returns c1" "3 \<le> i"
    "fst (recv_loop c1 []) ! (i - 3) = Recv n"
    using wait_for_bob_response_recv[of i w port "Recv n"] by auto
  from a obtain c2 where 2: "sock_accept w = Returns c2"
    "Suc i - 3 < length (fst (recv_loop c2 []))"
    "fst (recv_loop c2 []) ! (Suc i - 3) = RecvData data"
    using wait_for_bob_response_recv[of "Suc i" w port "RecvData data"] by auto
  from 1 2 have "c2 = c1" and "Suc i - 3 = Suc (i - 3)" by simp_all
  with 1 2 show "length data \<le> n"
    using recv_loop_answers[of "i - 3" c1 "[]" n data] by simp
qed

theorem full_read_is_first_768_bytes_witness:
  "snd (wait_for_bob_response demo_world (JInt 5000)) = Returns (replicate 768 7)
   \<and> length (replicate 768 (7 :: byte)) \<le> 768
   \<and> fst (wait_for_bob_response demo_world (JInt 5000)) ! 5 = Recv 268
   \<and> 268 + received (take 5 (fst (wait_for_bob_response demo_world (JInt 5000)))) = 768
   \<and> fst (wait_for_bob_response demo_world (JInt 5000)) ! 6 = RecvData (replicate 268 7)
   \<and> length (replicate 268 (7 :: byte)) \<le> 268"
proof -
  note T = full_read_is_first_768_bytes[of demo_world "JInt 5000" demo_conn
      "replicate 768 7" 5 268 "replicate 268 7"]
  have h1: "sock_bind demo_world ''localhost'' (JInt 5000) = Returns () \<and>
      sock_listen demo_world = Returns () \<and> sock_accept demo_world = Returns demo_conn \<and>
      768 \<le> length (incoming demo_conn)"
    by (simp add: demo_world_def demo_conn_def)
  have t: "take 768 (incoming demo_conn) = replicate 768 7"
    by (simp add: demo_conn_def)
  from T h1 have c1: "snd (wait_for_bob_response demo_world (JInt 5000))
                       = Returns (replicate 768 7)"
    unfolding t by blast
  have h3: "5 < length (fst (wait_for_bob_response demo_world (JInt 5000))) \<and>
      fst (wait_for_bob_response demo_world (JInt 5000)) ! 5 = Recv 268"
    by (simp add: wait_for_bob_response_demo_world)
  have h4: "Suc 5 < length (fst (wait_for_bob_response demo_world (JInt 5000))) \<and>
      fst (wait_for_bob_response demo_world (JInt 5000)) ! 5 = Recv 268 \<and>
      fst (wait_for_bob_response demo_world (JInt 5000)) ! Suc 5 = RecvData (replicate 268 7)"
    by (simp add: wait_for_bob_response_demo_world)
  from T c1 have c2: "length (replicate 768 (7 :: byte)) \<le> 768" by blast
  from T h3 have c3: "268 + received (take 5 (fst (wait_for_bob_response demo_world (JInt 5000))))
                       = 768"
    by blast
  from T h4 have c4: "length (replicate 268 (7 :: byte)) \<le> 268" by blast
  have s6: "Suc 5 = 6" by simp
  show ?thesis
    using c1 c2 h3 c3 h4[unfolded s6] c4 by blast
qed

subsection \<open>Runs that stop before the key is sent\<close>

lemma split_on_no_sep: "sep \<notin> set s \<Longrightarrow> split_on sep s = [s]"
  by (induction s) auto

lemma main_start_events:
  "e \<in> set (main_start w) \<Longrightarrow>
     e = LoadJson (arg_params w) \<or> e = PrintArgs (arg_params w) (arg_address w)
     \<or> (\<exists>m. e = Log Debug m)"
  by (auto simp: main_start_def)

lemma main_without_address:
  "arg_address w = None \<Longrightarrow> e \<in> set (fst (main w)) \<Longrightarrow>
     e \<in> set (main_start w) \<or> (\<exists>m. e = Log Error m) \<or> e = Log Warning GeneratingKeyPair
     \<or> (\<exists>d z. e = KeyGenCall d z)"
  by (auto simp: main_def main_seeds_def main_keygen_def
      split: outcome.splits if_splits)

text \<open>
  Claim C8. In a run started without a peer address, no outbound connection is ever
  opened and nothing is written to a socket. When the run gets as far as the address
  check (the seeds were decoded and \<open>KeyGen\<close> returned), it ends right after the
  \<open>KeyGen\<close> call: the "No address provided for Bob" error is logged and \<open>main\<close>
  returns 1.
\<close>
theorem no_peer_address_aborts_after_keygen:
  assumes "arg_address w = None"
  shows "(\<forall>host p. Connect host p \<notin> set (fst (main w)))
       \<and> (\<forall>data. SendAll data \<notin> set (fst (main w)))
       \<and> (keys_generated w kv d z ek dk \<longrightarrow>
            main w = (main_start w @ [Log Warning GeneratingKeyPair, KeyGenCall d z,
                                      Log Error NoAddressForBob], Returns 1))"
proof (intro conjI allI impI)
  fix host p
  show "Connect host p \<notin> set (fst (main w))"
    using main_without_address[OF assms, of "Connect host p"] main_start_events[of "Connect host p" w]
    by auto
next
  fix data
  show "SendAll data \<notin> set (fst (main w))"
    using main_without_address[OF assms, of "SendAll data"] main_start_events[of "SendAll data" w]
    by auto
next
  assume "keys_generated w kv d z ek dk"
  then show "main w = (main_start w @ [Log Warning GeneratingKeyPair, KeyGenCall d z,
                                      Log Error NoAddressForBob], Returns 1)"
    using assms main_to_keygen[of w kv d z]
    by (simp add: keys_generated_def main_keygen_def)
qed

lemma demo_seeds_loaded:
  "map_of kv ''d'' = Some (JStr ''00'') \<Longrightarrow> map_of kv ''z'' = Some (JStr ''11'')
   \<Longrightarrow> seeds_loaded (demo_with kv) kv [0] [17]"
  by (simp add: seeds_loaded_def demo_with_def demo_world_def py_fromhex_def
      is_space_def hex_digit_def)

lemma demo_keys_generated:
  "map_of kv ''d'' = Some (JStr ''00'') \<Longrightarrow> map_of kv ''z'' = Some (JStr ''11'')
   \<Longrightarrow> keys_generated (demo_with kv) kv [0] [17] [0, 17] [17, 0]"
  by (simp add: keys_generated_def demo_seeds_loaded) (simp add: demo_with_def demo_world_def)

theorem no_peer_address_aborts_after_keygen_witness:
  "(\<forall>host p. Connect host p \<notin> set (fst (main (demo_world\<lparr>arg_address := None\<rparr>))))
   \<and> (\<forall>data. SendAll data \<notin> set (fst (main (demo_world\<lparr>arg_address := None\<rparr>))))
   \<and> main (demo_world\<lparr>arg_address := None\<rparr>)
       = (main_start (demo_world\<lparr>arg_address := None\<rparr>)
            @ [Log Warning GeneratingKeyPair, KeyGenCall [0] [17], Log Error NoAddressForBob],
          Returns 1)"
proof -
  have "keys_generated (demo_world\<lparr>arg_address := None\<rparr>) demo_config [0] [17] [0, 17] [17, 0]"
    by (simp add: keys_generated_def seeds_loaded_def demo_world_def demo_config_def
        py_fromhex_def is_space_def hex_digit_def)
  moreover have "arg_address (demo_world\<lparr>arg_address := None\<rparr>) = None"
    by simp
  ultimately show ?thesis
    using no_peer_address_aborts_after_keygen[of "demo_world\<lparr>arg_address := None\<rparr>"
        demo_config "[0]" "[17]" "[0, 17]" "[17, 0]"]
    by blast
qed


lemma demo_peer_parsed: "peer_parsed (demo_with kv) ''127.0.0.1'' 6000"
  by (simp add: peer_parsed_def demo_with_def demo_world_def dec_int_def)

lemma demo_ek_delivered:
  "map_of kv ''d'' = Some (JStr ''00'') \<Longrightarrow> map_of kv ''z'' = Some (JStr ''11'')
   \<Longrightarrow> ek_delivered (demo_with kv) kv [0] [17] [0, 17] [17, 0] ''127.0.0.1'' 6000"
  by (simp add: ek_delivered_def demo_keys_generated demo_peer_parsed)
     (simp add: demo_with_def demo_world_def)

lemma main_listen_extends: "set tr \<subseteq> set (fst (main_listen w tr params dk))"
  by (auto simp: main_listen_def main_receive_def split: outcome.splits prod.splits)

lemma send_ek_to_bob_connects: "Connect host p \<in> set (fst (send_ek_to_bob w host p ek))"
  by (auto simp: send_ek_to_bob_def split: outcome.splits)

text \<open>
  Claim C10. When the key pair has been generated and the peer address holds no
  colon, \<open>split(":")\<close> yields a single part, the index 1 raises \<open>IndexError\<close> and
  nothing catches it: the run ends with that exception, in place of a logged error
  and a returned 1. Nor is the number of parts checked: with more than two parts the
  first two are used, the rest is ignored, and the connection is attempted.
\<close>
theorem address_without_colon_raises_IndexError:
  assumes "keys_generated w kv d z ek dk" and "arg_address w = Some bob_address_full"
  shows "(CHR '':'' \<notin> set bob_address_full \<longrightarrow>
            main w = (main_start w @ [Log Warning GeneratingKeyPair, KeyGenCall d z],
                      Raises IndexError)
            \<and> (\<forall>m. Log Error m \<notin> set (fst (main w))))
       \<and> (split_on CHR '':'' bob_address_full = host # port_text # rest
            \<and> py_int w port_text = Returns p
          \<longrightarrow> Connect host p \<in> set (fst (main w)))"
proof (intro conjI impI allI)
  assume nc: "CHR '':'' \<notin> set bob_address_full"
  show m: "main w = (main_start w @ [Log Warning GeneratingKeyPair, KeyGenCall d z],
                  Raises IndexError)"
    by (simp add: main_to_send[OF assms] main_send_def split_on_no_sep[OF nc] py_index_def
        trace_to_keygen_def)
  fix m
  show "Log Error m \<notin> set (fst (main w))"
    by (simp add: m main_start_def)
next
  assume "split_on CHR '':'' bob_address_full = host # port_text # rest
            \<and> py_int w port_text = Returns p"
  then show "Connect host p \<in> set (fst (main w))"
    using send_ek_to_bob_connects[of host p w ek]
      main_listen_extends[of "trace_to_keygen w d z @ [Log Debug (SendingEk host p),
         Log Debug (AmountOfData (length ek))] @ fst (send_ek_to_bob w host p ek)"
         w "JObj kv" dk]
    by (auto simp: main_to_send[OF assms] main_send_def py_index_def Let_def
        split: prod.splits outcome.splits)
qed

theorem address_without_colon_raises_IndexError_witness:
  "main (demo_world\<lparr>arg_address := Some ''localhost''\<rparr>)
     = (main_start (demo_world\<lparr>arg_address := Some ''localhost''\<rparr>)
          @ [Log Warning GeneratingKeyPair, KeyGenCall [0] [17]],
        Raises IndexError)
   \<and> Connect ''bob'' 6000
       \<in> set (fst (main (demo_world\<lparr>arg_address := Some ''bob:6000:extra''\<rparr>)))"
proof -
  have k: "keys_generated (demo_world\<lparr>arg_address := a\<rparr>) demo_config [0] [17] [0, 17] [17, 0]"
    for a
    by (simp add: keys_generated_def seeds_loaded_def demo_world_def demo_config_def
        py_fromhex_def is_space_def hex_digit_def)
  have a: "arg_address (demo_world\<lparr>arg_address := Some x\<rparr>) = Some x" for x
    by simp
  have n: "CHR '':'' \<notin> set ''localhost''" by simp
  have s: "split_on CHR '':'' ''bob:6000:extra'' = ''bob'' # ''6000'' # [''extra'']
           \<and> py_int (demo_world\<lparr>arg_address := Some ''bob:6000:extra''\<rparr>) ''6000''
               = Returns 6000"
    by (simp add: demo_world_def dec_int_def)
  have a1: "arg_address (demo_world\<lparr>arg_address := Some ''localhost''\<rparr>) = Some ''localhost''"
    and a2: "arg_address (demo_world\<lparr>arg_address := Some ''bob:6000:extra''\<rparr>)
               = Some ''bob:6000:extra''"
    by simp_all
  show ?thesis
    using address_without_colon_raises_IndexError[OF k a1]
      address_without_colon_raises_IndexError[OF k a2, where host = "''bob''"
          and port_text = "''6000''" and rest = "[''extra'']" and p = 6000] n s
    by blast
qed

subsection \<open>Seeds and the listen port\<close>

lemma valid_hex_iff: "\<not> valid_hex s \<longleftrightarrow> fromhex s = Raises ValueError"
  using fromhex_cases[of s] by (auto simp: valid_hex_def split: outcome.splits)

lemma main_seed_missing:
  assumes "load_json w (arg_params w) = Returns (JObj kv)"
    and "map_of kv ''d'' \<in> {None, Some JNull} \<or> map_of kv ''z'' \<in> {None, Some JNull}"
  shows "main w = (main_start w @ [Log Error (MissingParameters (arg_params w))], Returns 1)"
  using assms by (auto simp: main_def main_seeds_def py_get_def)

lemma main_seed_not_hex:
  assumes "load_json w (arg_params w) = Returns (JObj kv)"
    and "map_of kv ''d'' = Some (JStr ds)" and "map_of kv ''z'' = Some (JStr zs)"
    and "\<not> valid_hex ds \<or> \<not> valid_hex zs"
  shows "main w = (main_start w, Raises ValueError)"
  using assms fromhex_cases[of ds]
  by (auto simp: main_def main_seeds_def py_get_def py_fromhex_def valid_hex_iff)

text \<open>
  Claim C6, as amended. Let the file hold a dict. When \<open>d\<close> or \<open>z\<close> is absent (or
  \<open>null\<close>), \<open>main\<close> logs the "Missing parameters" error and returns 1 without
  calling \<open>KeyGen\<close>. When both are strings and one of them is not valid hexadecimal,
  \<open>KeyGen\<close> is not called either and the process also ends with status 1, but
  through the \<open>ValueError\<close> of \<open>bytearray.fromhex\<close>, which \<open>main\<close> does not catch:
  no "Missing parameters" error is logged.
\<close>
theorem seed_absent_or_not_hex:
  assumes "load_json w (arg_params w) = Returns (JObj kv)"
  shows "(map_of kv ''d'' \<in> {None, Some JNull} \<or> map_of kv ''z'' \<in> {None, Some JNull} \<longrightarrow>
            main w = (main_start w @ [Log Error (MissingParameters (arg_params w))], Returns 1)
            \<and> (\<forall>d z. KeyGenCall d z \<notin> set (fst (main w))))
       \<and> (map_of kv ''d'' = Some (JStr ds) \<and> map_of kv ''z'' = Some (JStr zs)
            \<and> (\<not> valid_hex ds \<or> \<not> valid_hex zs) \<longrightarrow>
            main w = (main_start w, Raises ValueError) \<and> exit_status (snd (main w)) = Some 1
            \<and> (\<forall>d z. KeyGenCall d z \<notin> set (fst (main w))))"
proof (intro conjI impI allI)
  assume a: "map_of kv ''d'' \<in> {None, Some JNull} \<or> map_of kv ''z'' \<in> {None, Some JNull}"
  show m: "main w = (main_start w @ [Log Error (MissingParameters (arg_params w))], Returns 1)"
    by (rule main_seed_missing[OF assms a])
  fix d z
  show "KeyGenCall d z \<notin> set (fst (main w))"
    by (simp add: m main_start_def)
next
  assume a: "map_of kv ''d'' = Some (JStr ds) \<and> map_of kv ''z'' = Some (JStr zs)
            \<and> (\<not> valid_hex ds \<or> \<not> valid_hex zs)"
  show m: "main w = (main_start w, Raises ValueError)"
    using main_seed_not_hex[OF assms, of ds zs] a by blast
  show "exit_status (snd (main w)) = Some 1"
    by (simp add: m)
  fix d z
  show "KeyGenCall d z \<notin> set (fst (main w))"
    by (simp add: m main_start_def)
qed

theorem seed_absent_or_not_hex_witness:
  "main (demo_with [(''d'', JStr ''00'')])
     = (main_start (demo_with [(''d'', JStr ''00'')])
          @ [Log Error (MissingParameters ''alice_params.json'')], Returns 1)
   \<and> main (demo_with [(''d'', JStr ''00''), (''z'', JStr ''1g'')])
       = (main_start (demo_with [(''d'', JStr ''00''), (''z'', JStr ''1g'')]), Raises ValueError)"
proof -
  have l: "load_json (demo_with kv) (arg_params (demo_with kv)) = Returns (JObj kv)" for kv
    by (simp add: demo_with_def)
  have p: "arg_params (demo_with kv) = ''alice_params.json''" for kv
    by (simp add: demo_with_def demo_world_def)
  have 1: "map_of [(''d'', JStr ''00'')] ''d'' \<in> {None, Some JNull}
           \<or> map_of [(''d'', JStr ''00'')] ''z'' \<in> {None, Some JNull}"
    by simp
  have 2: "map_of [(''d'', JStr ''00''), (''z'', JStr ''1g'')] ''d'' = Some (JStr ''00'')
         \<and> map_of [(''d'', JStr ''00''), (''z'', JStr ''1g'')] ''z'' = Some (JStr ''1g'')
         \<and> (\<not> valid_hex ''00'' \<or> \<not> valid_hex ''1g'')"
    by (simp add: valid_hex_def is_space_def hex_digit_def)
  show ?thesis
    using seed_absent_or_not_hex[OF l, of "[(''d'', JStr ''00'')]"] 1
      seed_absent_or_not_hex[OF l, of "[(''d'', JStr ''00''), (''z'', JStr ''1g'')]"
        "''00''" "''1g''"] 2
    unfolding p by blast
qed

text \<open>
  The statement with the logged error for both cases fails: with \<open>d = "zz"\<close> the run
  ends in an uncaught \<open>ValueError\<close> right after the file is loaded, and its events hold
  no error message.
\<close>

theorem invalid_hex_seed_is_uncaught_ValueError:
  "map_of [(''d'', JStr ''zz''), (''z'', JStr ''11''),
           (''connections'', JObj [(''port'', JInt 5000)])] ''d'' = Some (JStr ''zz'')
   \<and> fromhex ''zz'' = Raises ValueError
   \<and> main (demo_with [(''d'', JStr ''zz''), (''z'', JStr ''11''),
                       (''connections'', JObj [(''port'', JInt 5000)])])
       = ([Log Debug ParsingParameters,
           PrintArgs ''alice_params.json'' (Some ''127.0.0.1:6000''),
           Log Debug StartingAlice,
           Log Debug (LoadingSeeds ''alice_params.json''),
           LoadJson ''alice_params.json''],
          Raises ValueError)"
  by (simp add: main_def main_start_def main_seeds_def py_get_def py_fromhex_def
      demo_with_def demo_world_def is_space_def hex_digit_def)

text \<open>
  Claim C9, as amended. When the \<open>connections\<close> section is a dict with at least one
  field but without \<open>port\<close>, and the run gets as far as line 117 (the key was sent),
  the listen port defaults to 0 and \<open>main\<close> returns 1 through the check of the port
  against 1024, with the "cannot be easily used" message.
\<close>
theorem connections_without_port_fails_port_check:
  assumes "ek_delivered w kv d z ek dk host p"
    and "map_of kv ''connections'' = Some (JObj ckv)"
    and "ckv \<noteq> []"
    and "map_of ckv ''port'' = None"
  shows "main w =
           (main_start w @
            [Log Warning GeneratingKeyPair, KeyGenCall d z,
             Log Debug (SendingEk host p), Log Debug (AmountOfData (length ek)),
             Connect host p, SendAll ek, CloseOut,
             Log Error (PortNotUsable (JInt 0))],
            Returns 1)"
  using assms(2-)
  by (simp add: main_to_listen[OF assms(1)] main_listen_def main_receive_def py_get_def
      trace_to_listen_def trace_to_keygen_def)

theorem connections_without_port_fails_port_check_witness:
  "main (demo_with [(''d'', JStr ''00''), (''z'', JStr ''11''),
                    (''connections'', JObj [(''host'', JStr ''localhost'')])])
     = (main_start (demo_with [(''d'', JStr ''00''), (''z'', JStr ''11''),
                    (''connections'', JObj [(''host'', JStr ''localhost'')])]) @
        [Log Warning GeneratingKeyPair, KeyGenCall [0] [17],
         Log Debug (SendingEk ''127.0.0.1'' 6000), Log Debug (AmountOfData 2),
         Connect ''127.0.0.1'' 6000, SendAll [0, 17], CloseOut,
         Log Error (PortNotUsable (JInt 0))],
        Returns 1)"
  using connections_without_port_fails_port_check[OF demo_ek_delivered,
      of "[(''d'', JStr ''00''), (''z'', JStr ''11''),
           (''connections'', JObj [(''host'', JStr ''localhost'')])]"
         "[(''host'', JStr ''localhost'')]"]
  by simp

text \<open>
  A \<open>connections\<close> section that is the empty dict has no \<open>port\<close> field either, but
  it is false in \<open>if connections:\<close>, so that run takes the branch for a missing
  section.
\<close>

theorem empty_connections_section_counts_as_missing:
  "map_of [(''d'', JStr ''00''), (''z'', JStr ''11''), (''connections'', JObj [])]
     ''connections'' = Some (JObj [])
   \<and> map_of ([] :: (string \<times> json) list) ''port'' = None
   \<and> main (demo_with [(''d'', JStr ''00''), (''z'', JStr ''11''), (''connections'', JObj [])])
       = ([Log Debug ParsingParameters,
           PrintArgs ''alice_params.json'' (Some ''127.0.0.1:6000''),
           Log Debug StartingAlice,
           Log Debug (LoadingSeeds ''alice_params.json''),
           LoadJson ''alice_params.json'',
           Log Warning GeneratingKeyPair, KeyGenCall [0] [17],
           Log Debug (SendingEk ''127.0.0.1'' 6000), Log Debug (AmountOfData 2),
           Connect ''127.0.0.1'' 6000, SendAll [0, 17], CloseOut,
           Log Error (NoConnectionSection ''alice_params.json'')],
          Returns 1)"
  by (simp add: main_def main_start_def main_seeds_def main_keygen_def main_send_def
      main_listen_def main_receive_def send_ek_to_bob_def py_get_def py_fromhex_def py_index_def
      demo_with_def demo_world_def dec_int_def is_space_def hex_digit_def)

text \<open>
  Claim C1, as amended. When the listen port of the configuration record is below
  1024 and the run gets as far as line 117 (the seeds were decoded, \<open>KeyGen\<close>
  returned, the peer address was parsed and the key was sent), \<open>main\<close> logs the
  "cannot be easily used" error and returns 1. The port is looked at only there:
  \<open>KeyGen\<close> has been called, the outbound connection opened and \<open>ek\<close> written
  before the error, and no listening socket is bound after it.
\<close>
theorem low_listen_port_fails_after_key_is_sent:
  assumes "ek_delivered w kv d z ek dk host p"
    and "map_of kv ''connections'' = Some (JObj ckv)"
    and "map_of ckv ''port'' = Some listen_port"
    and "py_less_int listen_port 1024 = Returns True"
  shows "main w =
           (main_start w @
            [Log Warning GeneratingKeyPair, KeyGenCall d z,
             Log Debug (SendingEk host p), Log Debug (AmountOfData (length ek)),
             Connect host p, SendAll ek, CloseOut,
             Log Error (PortNotUsable listen_port)],
            Returns 1)"
proof -
  from assms(3) have "ckv \<noteq> []" by auto
  then show ?thesis
    using assms(2-)
    by (simp add: main_to_listen[OF assms(1)] main_listen_def main_receive_def py_get_def
        trace_to_listen_def trace_to_keygen_def)
qed

theorem low_listen_port_fails_after_key_is_sent_witness:
  "main (demo_with [(''d'', JStr ''00''), (''z'', JStr ''11''),
                    (''connections'', JObj [(''port'', JInt 80)])])
     = (main_start (demo_with [(''d'', JStr ''00''), (''z'', JStr ''11''),
                    (''connections'', JObj [(''port'', JInt 80)])]) @
        [Log Warning GeneratingKeyPair, KeyGenCall [0] [17],
         Log Debug (SendingEk ''127.0.0.1'' 6000), Log Debug (AmountOfData 2),
         Connect ''127.0.0.1'' 6000, SendAll [0, 17], CloseOut,
         Log Error (PortNotUsable (JInt 80))],
        Returns 1)"
  using low_listen_port_fails_after_key_is_sent[OF demo_ek_delivered,
      of "[(''d'', JStr ''00''), (''z'', JStr ''11''),
           (''connections'', JObj [(''port'', JInt 80)])]"
         "[(''port'', JInt 80)]" "JInt 80"]
  by simp

text \<open>
  The statement that the port is rejected before \<open>KeyGen\<close> and before any outbound
  connection fails: with port 80 and Bob reachable, the key pair is generated and the
  key is sent first.
\<close>

theorem low_listen_port_is_checked_after_keygen_and_send:
  "map_of [(''port'', JInt 80 :: json)] ''port'' = Some (JInt 80)
   \<and> py_less_int (JInt 80) 1024 = Returns True
   \<and> main (demo_with [(''d'', JStr ''00''), (''z'', JStr ''11''),
                       (''connections'', JObj [(''port'', JInt 80)])])
       = ([Log Debug ParsingParameters,
           PrintArgs ''alice_params.json'' (Some ''127.0.0.1:6000''),
           Log Debug StartingAlice,
           Log Debug (LoadingSeeds ''alice_params.json''),
           LoadJson ''alice_params.json'',
           Log Warning GeneratingKeyPair, KeyGenCall [0] [17],
           Log Debug (SendingEk ''127.0.0.1'' 6000), Log Debug (AmountOfData 2),
           Connect ''127.0.0.1'' 6000, SendAll [0, 17], CloseOut,
           Log Error (PortNotUsable (JInt 80))],
          Returns 1)"
  by (simp add: main_def main_start_def main_seeds_def main_keygen_def main_send_def
      main_listen_def main_receive_def send_ek_to_bob_def py_get_def py_fromhex_def py_index_def
      demo_with_def demo_world_def dec_int_def is_space_def hex_digit_def)

subsection \<open>Every ending of main\<close>



lemma main_send_failed:
  assumes "keys_generated w kv d z ek dk" and "peer_parsed w host p"
    and "snd (send_ek_to_bob w host p ek) = Returns False"
  shows "main w =
           (trace_to_keygen w d z @
            [Log Debug (SendingEk host p), Log Debug (AmountOfData (length ek))] @
            fst (send_ek_to_bob w host p ek) @ [Log Error (FailedSendingEk host p)],
            Returns 1)"
proof -
  from assms(2) obtain full where
    a: "arg_address w = Some full"
    and parts: "1 < length (split_on CHR '':'' full)" "split_on CHR '':'' full ! 0 = host"
      "py_int w (split_on CHR '':'' full ! 1) = Returns p"
    by (auto simp: peer_parsed_def Let_def split: option.splits)
  from parts(1) have "0 < length (split_on CHR '':'' full)" by arith
  then show ?thesis
    using parts assms(3)
    by (cases "send_ek_to_bob w host p ek")
       (simp add: main_to_send[OF assms(1) a] main_send_def py_index_def)
qed



lemma main_success:
  "ek_delivered w kv d z ek dk host p \<Longrightarrow> map_of kv ''connections'' = Some (JObj ckv)
   \<Longrightarrow> map_of ckv ''port'' = Some listen_port
   \<Longrightarrow> py_less_int listen_port 1024 = Returns False
   \<Longrightarrow> snd (wait_for_bob_response w listen_port) = Returns cipher_text
   \<Longrightarrow> Decaps w dk cipher_text = Returns alice_k
   \<Longrightarrow> main w =
         (trace_to_listen w d z ek host p @ [Log Debug WaitingForBob] @
          fst (wait_for_bob_response w listen_port) @
          [Log Debug GotBobResponse, DecapsCall dk cipher_text,
           Log Debug SharedSecretObtained, Log Debug (SharedSecretIs alice_k)],
          Returns 0)"
  by (cases "wait_for_bob_response w listen_port")
     (auto simp: main_to_listen main_listen_def main_receive_def py_get_def)





lemma demo_world_keys_generated:
  "load_json w = load_json demo_world \<Longrightarrow> arg_params w = arg_params demo_world
   \<Longrightarrow> KeyGen w = KeyGen demo_world
   \<Longrightarrow> keys_generated w demo_config [0] [17] [0, 17] [17, 0]"
  by (simp add: keys_generated_def seeds_loaded_def demo_world_def demo_config_def
      py_fromhex_def is_space_def hex_digit_def)

lemma demo_world_peer_parsed:
  "arg_address w = arg_address demo_world \<Longrightarrow> py_int w = py_int demo_world
   \<Longrightarrow> peer_parsed w ''127.0.0.1'' 6000"
  by (simp add: peer_parsed_def demo_world_def dec_int_def)

lemma demo_world_ek_delivered:
  "ek_delivered demo_world demo_config [0] [17] [0, 17] [17, 0] ''127.0.0.1'' 6000"
  by (simp add: ek_delivered_def demo_world_keys_generated demo_world_peer_parsed)
     (simp add: demo_world_def)

lemma demo_world_wait:
  "snd (wait_for_bob_response demo_world port) = Returns (replicate 768 7)"
proof -
  have "snd (wait_for_bob_response demo_world port) = snd (recv_loop demo_conn [])"
    by (rule wait_for_bob_response_accepted) (simp_all add: demo_world_def)
  also have "\<dots> = Returns (replicate 768 7)"
    using recv_loop_full[of "[]" demo_conn]
    by (simp add: CIPHER_TEXT_SIZE_IN_BYTES_def demo_conn_def)
  finally show ?thesis .
qed



subsection \<open>The events of a run\<close>

lemma wait_for_bob_response_listen_events:
  assumes "e \<in> set (fst (wait_for_bob_response w port))"
  shows "listen_event dk e"
proof -
  from wait_for_bob_response_events[OF assms]
  consider "e \<in> {Bind ''localhost'' port, Listen, Accept, CloseConn, CloseListen}"
    | c where "e \<in> set (fst (recv_loop c []))"
    by blast
  then show ?thesis
  proof cases
    case 1
    then show ?thesis by auto
  next
    case 2
    from recv_loop_events[OF this] show ?thesis by auto
  qed
qed

lemma main_receive_trace:
  "\<exists>evs. fst (main_receive w tr dk port) = tr @ evs \<and> (\<forall>e \<in> set evs. listen_event dk e)"
proof -
  obtain evs r where wr: "wait_for_bob_response w port = (evs, r)"
    by (cases "wait_for_bob_response w port")
  have "\<forall>e \<in> set evs. listen_event dk e"
    using wait_for_bob_response_listen_events[of _ w port dk] wr by simp
  then show ?thesis
    by (auto simp: main_receive_def wr split: outcome.splits)
qed

lemma main_listen_trace:
  "\<exists>evs. fst (main_listen w tr params dk) = tr @ evs \<and> (\<forall>e \<in> set evs. listen_event dk e)"
  using main_receive_trace[of w tr dk]
  by (auto simp: main_listen_def split: outcome.splits)

lemma send_ek_to_bob_events:
  "e \<in> set (fst (send_ek_to_bob w host p ek)) \<Longrightarrow> e \<in> {Connect host p, SendAll ek, CloseOut}"
  by (auto simp: send_ek_to_bob_def split: outcome.splits)

lemma main_send_trace:
  "\<exists>evs. fst (main_send w tr params ek dk full) = tr @ evs \<and>
     (\<forall>e \<in> set evs. listen_event dk e \<or> e = SendAll ek \<or> e = CloseOut \<or>
        (\<exists>host p. e = Connect host p \<and> 1 < length (split_on CHR '':'' full) \<and>
           split_on CHR '':'' full ! 0 = host \<and>
           py_int w (split_on CHR '':'' full ! 1) = Returns p))"
proof (cases "1 < length (split_on CHR '':'' full)")
  case False
  then show ?thesis
    by (auto simp: main_send_def py_index_def)
next
  case True
  let ?host = "split_on CHR '':'' full ! 0"
  show ?thesis
  proof (cases "py_int w (split_on CHR '':'' full ! 1)")
    case (Returns p)
    let ?tr' = "tr @ [Log Debug (SendingEk ?host p), Log Debug (AmountOfData (length ek))]"
    obtain sevs r where s: "send_ek_to_bob w ?host p ek = (sevs, r)"
      by (cases "send_ek_to_bob w ?host p ek")
    have sev: "\<forall>e \<in> set sevs. e \<in> {Connect ?host p, SendAll ek, CloseOut}"
      using send_ek_to_bob_events[of _ w ?host p ek] s by simp
    from main_listen_trace[of w "?tr' @ sevs" params dk] obtain levs where
      l: "fst (main_listen w (?tr' @ sevs) params dk) = (?tr' @ sevs) @ levs"
         "\<forall>e \<in> set levs. listen_event dk e"
      by blast
    have m: "fst (main_send w tr params ek dk full) = ?tr' @ sevs
             \<or> fst (main_send w tr params ek dk full)
                 = ?tr' @ sevs @ [Log Error (FailedSendingEk ?host p)]
             \<or> fst (main_send w tr params ek dk full) = (?tr' @ sevs) @ levs"
      using True Returns s l(1)
      by (cases r) (auto simp: main_send_def py_index_def Let_def)
    then show ?thesis
      using sev l(2) True Returns by (elim disjE) auto
  next
    case (Raises e)
    with True show ?thesis by (auto simp: main_send_def py_index_def)
  next
    case Blocks
    with True show ?thesis by (auto simp: main_send_def py_index_def)
  qed
qed

lemma main_not_sending:
  assumes "\<not> (\<exists>kv d z ek dk full. keys_generated w kv d z ek dk \<and> arg_address w = Some full)"
    and "e \<in> set (fst (main w))"
  shows "e \<in> set (main_start w) \<or> (\<exists>l m. e = Log l m) \<or> (\<exists>d z. e = KeyGenCall d z)"
proof (cases "load_json w (arg_params w)")
  case (Returns params)
  show ?thesis
  proof (cases "\<exists>d z. main w = main_keygen w (main_start w) params d z
                  \<and> (\<exists>kv. seeds_loaded w kv d z)")
    case True
    then obtain d z kv where m: "main w = main_keygen w (main_start w) params d z"
      and sl: "seeds_loaded w kv d z" by blast
    show ?thesis
    proof (cases "KeyGen w d z")
      case r: (Returns keys)
      obtain ek dk where keys: "keys = (ek, dk)" by (cases keys)
      have "keys_generated w kv d z ek dk" using sl r keys by (simp add: keys_generated_def)
      with assms(1) have "arg_address w = None" by (cases "arg_address w") auto
      with assms(2) r keys show ?thesis by (auto simp: m main_keygen_def)
    next
      case (Raises x)
      with assms(2) show ?thesis by (auto simp: m main_keygen_def)
    next
      case Blocks
      with assms(2) show ?thesis by (auto simp: m main_keygen_def)
    qed
  next
    case False
    have "fst (main w) = main_start w
          \<or> fst (main w) = main_start w @ [Log Error (MissingParameters (arg_params w))]"
      using False Returns
      by (auto simp: main_def main_seeds_def py_get_def seeds_loaded_def py_fromhex_def
          split: outcome.splits json.splits option.splits if_splits)
    with assms(2) show ?thesis by auto
  qed
next
  case (Raises x)
  with assms(2) show ?thesis by (auto simp: main_def split: if_splits)
next
  case Blocks
  with assms(2) show ?thesis by (auto simp: main_def)
qed

lemma main_sending:
  assumes "e \<in> set (fst (main w))"
    and "\<forall>l m. e \<noteq> Log l m" and "\<forall>d z. e \<noteq> KeyGenCall d z"
    and "e \<notin> set (main_start w)"
  shows "\<exists>kv d z ek dk. keys_generated w kv d z ek dk \<and>
           KeyGenCall d z \<in> set (fst (main w)) \<and>
           (listen_event dk e \<or> e = SendAll ek \<or> e = CloseOut \<or>
            (\<exists>host p. e = Connect host p \<and> peer_parsed w host p))"
proof -
  from main_not_sending[of w e] assms obtain kv d z ek dk full where
    k: "keys_generated w kv d z ek dk" and a: "arg_address w = Some full"
    by blast
  note m = main_to_send[OF k a]
  from main_send_trace[of w "trace_to_keygen w d z" "JObj kv" ek dk full] obtain evs where
    t: "fst (main w) = trace_to_keygen w d z @ evs"
    and ev: "\<forall>e \<in> set evs. listen_event dk e \<or> e = SendAll ek \<or> e = CloseOut \<or>
        (\<exists>host p. e = Connect host p \<and> 1 < length (split_on CHR '':'' full) \<and>
           split_on CHR '':'' full ! 0 = host \<and>
           py_int w (split_on CHR '':'' full ! 1) = Returns p)"
    unfolding m by blast
  have "e \<in> set evs"
    using assms t by (auto simp: trace_to_keygen_def)
  with ev a have "listen_event dk e \<or> e = SendAll ek \<or> e = CloseOut \<or>
        (\<exists>host p. e = Connect host p \<and> peer_parsed w host p)"
    by (auto simp: peer_parsed_def Let_def)
  moreover have "KeyGenCall d z \<in> set (fst (main w))"
    by (simp add: t trace_to_keygen_def)
  ultimately show ?thesis using k by blast
qed

text \<open>
  Claim C5. When the connection to the peer is refused, \<open>send_ek_to_bob\<close> closes
  its socket and returns \<open>False\<close>. Every run of \<open>main\<close> that attempts such a
  connection returns 1 with the "Failed sending ek" error as its last event, and
  never binds, listens or accepts.
\<close>
theorem refused_connection_aborts_without_listening:
  assumes "sock_connect w host p = Raises ConnectionRefusedError"
  shows "send_ek_to_bob w host p ek = ([Connect host p, CloseOut], Returns False)
       \<and> (Connect host p \<in> set (fst (main w)) \<longrightarrow>
            snd (main w) = Returns 1 \<and> exit_status (snd (main w)) = Some 1
            \<and> last (fst (main w)) = Log Error (FailedSendingEk host p)
            \<and> (\<forall>h q. Bind h q \<notin> set (fst (main w)))
            \<and> Listen \<notin> set (fst (main w)) \<and> Accept \<notin> set (fst (main w)))"
proof (intro conjI impI)
  show s: "send_ek_to_bob w host p ek = ([Connect host p, CloseOut], Returns False)" for ek
    using assms by (simp add: send_ek_to_bob_def refused_to_False_def)
  assume c: "Connect host p \<in> set (fst (main w))"
  have "Connect host p \<notin> set (main_start w)" by (simp add: main_start_def)
  with c obtain kv d z ek' dk where k: "keys_generated w kv d z ek' dk"
    and pp: "peer_parsed w host p"
    using main_sending[of "Connect host p" w] by auto
  have m: "main w =
     (main_start w @
      [Log Warning GeneratingKeyPair, KeyGenCall d z,
       Log Debug (SendingEk host p), Log Debug (AmountOfData (length ek')),
       Connect host p, CloseOut, Log Error (FailedSendingEk host p)],
      Returns 1)"
    using main_send_failed[OF k pp] by (simp add: s trace_to_keygen_def)
  show "snd (main w) = Returns 1" "exit_status (snd (main w)) = Some 1"
    "last (fst (main w)) = Log Error (FailedSendingEk host p)"
    "\<forall>h q. Bind h q \<notin> set (fst (main w))"
    "Listen \<notin> set (fst (main w))" "Accept \<notin> set (fst (main w))"
    by (simp_all add: m main_start_def)
qed

theorem refused_connection_aborts_without_listening_witness:
  "send_ek_to_bob (demo_world\<lparr>sock_connect := (\<lambda>host port. Raises ConnectionRefusedError)\<rparr>)
       ''127.0.0.1'' 6000 [0, 17]
     = ([Connect ''127.0.0.1'' 6000, CloseOut], Returns False)
   \<and> snd (main (demo_world\<lparr>sock_connect := (\<lambda>host port. Raises ConnectionRefusedError)\<rparr>))
       = Returns 1
   \<and> last (fst (main (demo_world\<lparr>sock_connect :=
                                     (\<lambda>host port. Raises ConnectionRefusedError)\<rparr>)))
       = Log Error (FailedSendingEk ''127.0.0.1'' 6000)
   \<and> Accept \<notin> set (fst (main (demo_world\<lparr>sock_connect :=
                                     (\<lambda>host port. Raises ConnectionRefusedError)\<rparr>)))"
proof -
  let ?W = "demo_world\<lparr>sock_connect := (\<lambda>host port. Raises ConnectionRefusedError)\<rparr>"
  have r: "sock_connect ?W ''127.0.0.1'' 6000 = Raises ConnectionRefusedError"
    by simp
  have "keys_generated ?W demo_config [0] [17] [0, 17] [17, 0]"
    and "peer_parsed ?W ''127.0.0.1'' 6000"
    and "snd (send_ek_to_bob ?W ''127.0.0.1'' 6000 [0, 17]) = Returns False"
    by (simp_all add: demo_world_keys_generated demo_world_peer_parsed send_ek_to_bob_def
        refused_to_False_def)
  from main_send_failed[OF this]
  have c: "Connect ''127.0.0.1'' 6000 \<in> set (fst (main ?W))"
    by (simp add: send_ek_to_bob_def refused_to_False_def)
  show ?thesis
    using refused_connection_aborts_without_listening[OF r, of "[0, 17]"] c
    by blast
qed

subsection \<open>What is written to sockets\<close>

lemma socket_writes_append: "socket_writes (xs @ ys) = socket_writes xs @ socket_writes ys"
  by (induction xs rule: socket_writes.induct) simp_all

lemma set_socket_writes: "set (socket_writes evs) = {data. SendAll data \<in> set evs}"
  by (induction evs rule: socket_writes.induct) auto

lemma socket_writes_none: "(\<forall>data. SendAll data \<notin> set evs) \<Longrightarrow> socket_writes evs = []"
  using set_socket_writes[of evs] by simp

lemma socket_writes_listen: "\<forall>e \<in> set evs. listen_event dk e \<Longrightarrow> socket_writes evs = []"
  by (rule socket_writes_none) auto

lemma main_listen_writes: "socket_writes (fst (main_listen w tr params dk)) = socket_writes tr"
  using main_listen_trace[of w tr params dk]
  by (auto simp: socket_writes_append socket_writes_listen)

lemma send_ek_to_bob_writes:
  "length (socket_writes (fst (send_ek_to_bob w host p ek))) \<le> Suc 0"
  by (auto simp: send_ek_to_bob_def split: outcome.splits)

lemma main_send_writes:
  "socket_writes (fst (main_send w tr params ek dk full)) =
     socket_writes tr @
     (if 1 < length (split_on CHR '':'' full) then
        (case py_int w (split_on CHR '':'' full ! 1) of
           Returns p \<Rightarrow> socket_writes (fst (send_ek_to_bob w (split_on CHR '':'' full ! 0) p ek))
         | _ \<Rightarrow> [])
      else [])"
proof (cases "1 < length (split_on CHR '':'' full)")
  case False
  then show ?thesis by (auto simp: main_send_def py_index_def)
next
  case True
  let ?host = "split_on CHR '':'' full ! 0"
  show ?thesis
  proof (cases "py_int w (split_on CHR '':'' full ! 1)")
    case (Returns p)
    obtain sevs r where s: "send_ek_to_bob w ?host p ek = (sevs, r)"
      by (cases "send_ek_to_bob w ?host p ek")
    show ?thesis
      using True Returns s
      by (cases r)
         (auto simp: main_send_def py_index_def Let_def socket_writes_append main_listen_writes)
  next
    case (Raises e)
    with True show ?thesis by (auto simp: main_send_def py_index_def)
  next
    case Blocks
    with True show ?thesis by (auto simp: main_send_def py_index_def)
  qed
qed

lemma with_dk_fields:
  "arg_params (with_dk f w) = arg_params w"
  "arg_address (with_dk f w) = arg_address w"
  "load_json (with_dk f w) = load_json w"
  "Decaps (with_dk f w) = Decaps w"
  "py_int (with_dk f w) = py_int w"
  "sock_connect (with_dk f w) = sock_connect w"
  "sock_sendall (with_dk f w) = sock_sendall w"
  "sock_bind (with_dk f w) = sock_bind w"
  "sock_listen (with_dk f w) = sock_listen w"
  "sock_accept (with_dk f w) = sock_accept w"
  by (simp_all add: with_dk_def)

lemma send_ek_to_bob_with_dk:
  "send_ek_to_bob (with_dk f w) host p ek = send_ek_to_bob w host p ek"
  unfolding send_ek_to_bob_def with_dk_fields by (rule refl)

lemma wait_for_bob_response_with_dk:
  "wait_for_bob_response (with_dk f w) port = wait_for_bob_response w port"
  unfolding wait_for_bob_response_def with_dk_fields by (rule refl)

lemma main_receive_with_dk:
  "main_receive (with_dk f w) tr dk port = main_receive w tr dk port"
  unfolding main_receive_def wait_for_bob_response_with_dk with_dk_fields by (rule refl)

lemma main_listen_with_dk:
  "main_listen (with_dk f w) tr params dk = main_listen w tr params dk"
  unfolding main_listen_def main_receive_with_dk with_dk_fields by (rule refl)

lemma main_send_with_dk:
  "main_send (with_dk f w) tr params ek dk full = main_send w tr params ek dk full"
  unfolding main_send_def main_listen_with_dk send_ek_to_bob_with_dk with_dk_fields
  by (rule refl)

lemma keys_generated_with_dk:
  "keys_generated w kv d z ek dk \<Longrightarrow> keys_generated (with_dk f w) kv d z ek (f dk)"
  by (simp add: keys_generated_def seeds_loaded_def with_dk_def)

lemma keys_generated_with_dk_back:
  "keys_generated (with_dk f w) kv d z ek dk' \<Longrightarrow> \<exists>dk. keys_generated w kv d z ek dk"
  by (auto simp: keys_generated_def seeds_loaded_def with_dk_def split: outcome.splits)

lemma main_writes_without_send:
  assumes "\<not> (\<exists>kv d z ek dk full. keys_generated w kv d z ek dk \<and> arg_address w = Some full)"
  shows "socket_writes (fst (main w)) = []"
proof (rule socket_writes_none, intro allI notI)
  fix data
  assume "SendAll data \<in> set (fst (main w))"
  from main_not_sending[OF assms this] show False
    by (auto simp: main_start_def)
qed

lemma main_writes_with_dk:
  "socket_writes (fst (main (with_dk f w))) = socket_writes (fst (main w))"
proof (cases "\<exists>kv d z ek dk full. keys_generated w kv d z ek dk \<and> arg_address w = Some full")
  case True
  then obtain kv d z ek dk full where k: "keys_generated w kv d z ek dk"
    and a: "arg_address w = Some full" by blast
  have a': "arg_address (with_dk f w) = Some full" using a by (simp add: with_dk_def)
  have t: "trace_to_keygen (with_dk f w) d z = trace_to_keygen w d z"
    by (simp add: trace_to_keygen_def main_start_def with_dk_def)
  show ?thesis
    unfolding main_to_send[OF k a] main_to_send[OF keys_generated_with_dk[OF k] a']
    by (simp add: main_send_with_dk t main_send_writes)
next
  case False
  have "\<not> (\<exists>kv d z ek dk full. keys_generated (with_dk f w) kv d z ek dk
              \<and> arg_address (with_dk f w) = Some full)"
  proof
    assume "\<exists>kv d z ek dk full. keys_generated (with_dk f w) kv d z ek dk
              \<and> arg_address (with_dk f w) = Some full"
    then obtain kv d z ek dk full where "keys_generated (with_dk f w) kv d z ek dk"
      and "arg_address (with_dk f w) = Some full" by blast
    then have "\<exists>dk. keys_generated w kv d z ek dk" and "arg_address w = Some full"
      using keys_generated_with_dk_back by (blast, simp add: with_dk_def)
    with False show False by blast
  qed
  then show ?thesis
    using False by (simp add: main_writes_without_send)
qed

lemma main_writes_length: "length (socket_writes (fst (main w))) \<le> 1"
proof (cases "\<exists>kv d z ek dk full. keys_generated w kv d z ek dk \<and> arg_address w = Some full")
  case True
  then obtain kv d z ek dk full where k: "keys_generated w kv d z ek dk"
    and a: "arg_address w = Some full" by blast
  have "socket_writes (trace_to_keygen w d z) = []"
    by (simp add: trace_to_keygen_def main_start_def)
  then show ?thesis
    unfolding main_to_send[OF k a] main_send_writes
    by (simp add: send_ek_to_bob_writes split: outcome.splits)
next
  case False
  then show ?thesis by (simp add: main_writes_without_send)
qed

lemma wait_for_bob_response_before_decaps:
  "e \<in> set (fst (wait_for_bob_response w port)) \<Longrightarrow> before_decaps e"
  using wait_for_bob_response_events[of e w port]
  by (auto dest: recv_loop_events)

lemma send_ek_to_bob_before_decaps:
  "e \<in> set (fst (send_ek_to_bob w host p ek)) \<Longrightarrow> before_decaps e"
  using send_ek_to_bob_events[of e w host p ek] by auto

text \<open>
  From a point on, a run adds events that do not depend on \<open>dk\<close> and then, at most,
  the call of \<open>Decaps\<close> with what follows it.
\<close>

lemma main_receive_split:
  "\<exists>pre. (\<forall>e \<in> set pre. before_decaps e) \<and>
     (\<forall>dk. \<exists>post. fst (main_receive w tr dk port) = tr @ pre @ post \<and>
        (post = [] \<or> (\<exists>c. post = decaps_tail w dk c)))"
proof -
  obtain evs r where wr: "wait_for_bob_response w port = (evs, r)"
    by (cases "wait_for_bob_response w port")
  have evs: "\<forall>e \<in> set evs. before_decaps e"
    using wait_for_bob_response_before_decaps[of _ w port] wr by simp
  show ?thesis
  proof (cases r)
    case (Returns c)
    have "\<forall>dk. fst (main_receive w tr dk port) =
            tr @ (Log Debug WaitingForBob # evs @ [Log Debug GotBobResponse]) @ decaps_tail w dk c"
      by (simp add: main_receive_def wr Returns decaps_tail_def split: outcome.splits)
    moreover have "\<forall>e \<in> set (Log Debug WaitingForBob # evs @ [Log Debug GotBobResponse]).
                     before_decaps e"
      using evs by auto
    ultimately show ?thesis by blast
  next
    case (Raises x)
    have "\<forall>dk. fst (main_receive w tr dk port) = tr @ (Log Debug WaitingForBob # evs) @ []"
      by (simp add: main_receive_def wr Raises)
    moreover have "\<forall>e \<in> set (Log Debug WaitingForBob # evs). before_decaps e"
      using evs by auto
    ultimately show ?thesis by blast
  next
    case Blocks
    have "\<forall>dk. fst (main_receive w tr dk port) = tr @ (Log Debug WaitingForBob # evs) @ []"
      by (simp add: main_receive_def wr Blocks)
    moreover have "\<forall>e \<in> set (Log Debug WaitingForBob # evs). before_decaps e"
      using evs by auto
    ultimately show ?thesis by blast
  qed
qed

lemma fixed_split:
  assumes "\<forall>x. fst (g x) = tr @ evs" and "\<forall>e \<in> set evs. before_decaps e"
  shows "\<exists>pre. (\<forall>e \<in> set pre. before_decaps e) \<and>
     (\<forall>x. \<exists>post. fst (g x) = tr @ pre @ post \<and> (post = [] \<or> Q x post))"
  using assms by (intro exI[of _ evs]) simp

lemma main_listen_split:
  "\<exists>pre. (\<forall>e \<in> set pre. before_decaps e) \<and>
     (\<forall>dk. \<exists>post. fst (main_listen w tr params dk) = tr @ pre @ post \<and>
        (post = [] \<or> (\<exists>c. post = decaps_tail w dk c)))"
proof (cases "py_get params ''connections'' JNull")
  case (Returns connections)
  show ?thesis
  proof (cases "py_truthy connections")
    case True
    show ?thesis
    proof (cases "py_get connections ''port'' (JInt 0)")
      case p: (Returns listen_port)
      show ?thesis
      proof (cases "py_less_int listen_port 1024")
        case b: (Returns below)
        show ?thesis
        proof (cases below)
          case t: True
          have "\<forall>dk. fst (main_listen w tr params dk) = tr @ [Log Error (PortNotUsable listen_port)]"
            using Returns True p b t by (simp add: main_listen_def)
          then show ?thesis by (rule fixed_split) simp
        next
          case f: False
          have "\<forall>dk. main_listen w tr params dk = main_receive w tr dk listen_port"
            using Returns True p b f by (simp add: main_listen_def)
          then show ?thesis using main_receive_split[of w tr listen_port] by simp
        qed
      next
        case (Raises x)
        have "\<forall>dk. fst (main_listen w tr params dk) = tr @ []"
          using Returns True p Raises by (simp add: main_listen_def)
        then show ?thesis by (rule fixed_split) simp
      next
        case Blocks
        have "\<forall>dk. fst (main_listen w tr params dk) = tr @ []"
          using Returns True p Blocks by (simp add: main_listen_def)
        then show ?thesis by (rule fixed_split) simp
      qed
    next
      case (Raises x)
      have "\<forall>dk. fst (main_listen w tr params dk) = tr @ []"
        using Returns True Raises by (simp add: main_listen_def)
      then show ?thesis by (rule fixed_split) simp
    next
      case Blocks
      have "\<forall>dk. fst (main_listen w tr params dk) = tr @ []"
        using Returns True Blocks by (simp add: main_listen_def)
      then show ?thesis by (rule fixed_split) simp
    qed
  next
    case False
    have "\<forall>dk. fst (main_listen w tr params dk) =
            tr @ [Log Error (NoConnectionSection (arg_params w))]"
      using Returns False by (simp add: main_listen_def)
    then show ?thesis by (rule fixed_split) simp
  qed
next
  case (Raises x)
  have "\<forall>dk. fst (main_listen w tr params dk) = tr @ []"
    using Raises by (simp add: main_listen_def)
  then show ?thesis by (rule fixed_split) simp
next
  case Blocks
  have "\<forall>dk. fst (main_listen w tr params dk) = tr @ []"
    using Blocks by (simp add: main_listen_def)
  then show ?thesis by (rule fixed_split) simp
qed

lemma main_send_split:
  "\<exists>pre. (\<forall>e \<in> set pre. before_decaps e) \<and>
     (\<forall>dk. \<exists>post. fst (main_send w tr params ek dk full) = tr @ pre @ post \<and>
        (post = [] \<or> (\<exists>c. post = decaps_tail w dk c)))"
proof (cases "1 < length (split_on CHR '':'' full)")
  case False
  have "\<forall>dk. fst (main_send w tr params ek dk full) = tr @ []"
    using False by (auto simp: main_send_def py_index_def)
  then show ?thesis by (rule fixed_split) simp
next
  case True
  then have pos: "0 < length (split_on CHR '':'' full)" by arith
  let ?host = "split_on CHR '':'' full ! 0"
  show ?thesis
  proof (cases "py_int w (split_on CHR '':'' full ! 1)")
    case (Returns p)
    let ?logs = "[Log Debug (SendingEk ?host p), Log Debug (AmountOfData (length ek))]"
    obtain sevs r where s: "send_ek_to_bob w ?host p ek = (sevs, r)"
      by (cases "send_ek_to_bob w ?host p ek")
    have sev: "\<forall>e \<in> set sevs. before_decaps e"
      using send_ek_to_bob_before_decaps[of _ w ?host p ek] s by simp
    show ?thesis
    proof (cases r)
      case r: (Returns sent)
      show ?thesis
      proof (cases sent)
        case True
        have m: "\<forall>dk. main_send w tr params ek dk full =
                   main_listen w ((tr @ ?logs) @ sevs) params dk"
          using \<open>1 < length (split_on CHR '':'' full)\<close> pos Returns s r True
          by (simp add: main_send_def py_index_def)
        from main_listen_split[of w "(tr @ ?logs) @ sevs" params] obtain pre0 where
          p0: "\<forall>e \<in> set pre0. before_decaps e"
          and l: "\<forall>dk. \<exists>post. fst (main_listen w ((tr @ ?logs) @ sevs) params dk)
                      = ((tr @ ?logs) @ sevs) @ pre0 @ post \<and>
                    (post = [] \<or> (\<exists>c. post = decaps_tail w dk c))"
          by blast
        have "\<forall>e \<in> set (?logs @ sevs @ pre0). before_decaps e"
          using sev p0 by auto
        moreover have "\<forall>dk. \<exists>post. fst (main_send w tr params ek dk full)
                      = tr @ (?logs @ sevs @ pre0) @ post \<and>
                    (post = [] \<or> (\<exists>c. post = decaps_tail w dk c))"
          using l by (simp add: m)
        ultimately show ?thesis by blast
      next
        case False
        have "\<forall>dk. fst (main_send w tr params ek dk full) =
                tr @ (?logs @ sevs @ [Log Error (FailedSendingEk ?host p)])"
          using \<open>1 < length (split_on CHR '':'' full)\<close> pos Returns s r False
          by (simp add: main_send_def py_index_def)
        then show ?thesis by (rule fixed_split) (use sev in auto)
      qed
    next
      case (Raises x)
      have "\<forall>dk. fst (main_send w tr params ek dk full) = tr @ (?logs @ sevs)"
        using True pos Returns s Raises by (simp add: main_send_def py_index_def)
      then show ?thesis by (rule fixed_split) (use sev in auto)
    next
      case Blocks
      have "\<forall>dk. fst (main_send w tr params ek dk full) = tr @ (?logs @ sevs)"
        using True pos Returns s Blocks by (simp add: main_send_def py_index_def)
      then show ?thesis by (rule fixed_split) (use sev in auto)
    qed
  next
    case (Raises x)
    have "\<forall>dk. fst (main_send w tr params ek dk full) = tr @ []"
      using True pos Raises by (simp add: main_send_def py_index_def)
    then show ?thesis by (rule fixed_split) simp
  next
    case Blocks
    have "\<forall>dk. fst (main_send w tr params ek dk full) = tr @ []"
      using True pos Blocks by (simp add: main_send_def py_index_def)
    then show ?thesis by (rule fixed_split) simp
  qed
qed

lemma KeyGen_with_dk:
  "KeyGen (with_dk f w) d z =
     (case KeyGen w d z of
        Returns (ek, dk) \<Rightarrow> Returns (ek, f dk)
      | Raises e \<Rightarrow> Raises e
      | Blocks \<Rightarrow> Blocks)"
  by (simp add: with_dk_def)

lemma main_keygen_split:
  "\<exists>pre. (\<forall>e \<in> set pre. before_decaps e) \<and>
     (\<forall>f. \<exists>post. fst (main_keygen (with_dk f w) tr params d z) = tr @ pre @ post \<and>
        (post = [] \<or> (\<exists>dk c. post = decaps_tail w dk c)))"
proof (cases "KeyGen w d z")
  case (Returns keys)
  obtain ek dk where keys: "keys = (ek, dk)" by (cases keys)
  let ?call = "[Log Warning GeneratingKeyPair, KeyGenCall d z]"
  show ?thesis
  proof (cases "arg_address w")
    case None
    have "\<forall>f. fst (main_keygen (with_dk f w) tr params d z) =
            tr @ (?call @ [Log Error NoAddressForBob])"
      using Returns keys None
      by (simp add: main_keygen_def KeyGen_with_dk with_dk_fields)
    then show ?thesis by (rule fixed_split) simp
  next
    case (Some full)
    have m: "\<forall>f. main_keygen (with_dk f w) tr params d z =
               main_send w (tr @ ?call) params ek (f dk) full"
      using Returns keys Some
      by (simp add: main_keygen_def KeyGen_with_dk with_dk_fields main_send_with_dk)
    from main_send_split[of w "tr @ ?call" params ek full] obtain pre0 where
      p0: "\<forall>e \<in> set pre0. before_decaps e"
      and l: "\<forall>k. \<exists>post. fst (main_send w (tr @ ?call) params ek k full)
                  = (tr @ ?call) @ pre0 @ post \<and>
                (post = [] \<or> (\<exists>c. post = decaps_tail w k c))"
      by blast
    have "\<forall>e \<in> set (?call @ pre0). before_decaps e"
      using p0 by auto
    moreover have "\<forall>f. \<exists>post. fst (main_keygen (with_dk f w) tr params d z)
                  = tr @ (?call @ pre0) @ post \<and>
                (post = [] \<or> (\<exists>k c. post = decaps_tail w k c))"
    proof
      fix f
      from l obtain post where
        "fst (main_send w (tr @ ?call) params ek (f dk) full) = (tr @ ?call) @ pre0 @ post"
        and "post = [] \<or> (\<exists>c. post = decaps_tail w (f dk) c)"
        by blast
      then show "\<exists>post. fst (main_keygen (with_dk f w) tr params d z)
                  = tr @ (?call @ pre0) @ post \<and>
                (post = [] \<or> (\<exists>k c. post = decaps_tail w k c))"
        using m by auto
    qed
    ultimately show ?thesis by blast
  qed
next
  case (Raises x)
  have "\<forall>f. fst (main_keygen (with_dk f w) tr params d z) =
          tr @ [Log Warning GeneratingKeyPair, KeyGenCall d z]"
    using Raises by (simp add: main_keygen_def KeyGen_with_dk)
  then show ?thesis by (rule fixed_split) simp
next
  case Blocks
  have "\<forall>f. fst (main_keygen (with_dk f w) tr params d z) =
          tr @ [Log Warning GeneratingKeyPair, KeyGenCall d z]"
    using Blocks by (simp add: main_keygen_def KeyGen_with_dk)
  then show ?thesis by (rule fixed_split) simp
qed

lemma main_seeds_split:
  "\<exists>pre. (\<forall>e \<in> set pre. before_decaps e) \<and>
     (\<forall>f. \<exists>post. fst (main_seeds (with_dk f w) tr params) = tr @ pre @ post \<and>
        (post = [] \<or> (\<exists>dk c. post = decaps_tail w dk c)))"
proof (cases "\<exists>d z. \<forall>f. main_seeds (with_dk f w) tr params
                         = main_keygen (with_dk f w) tr params d z")
  case True
  then obtain d z where
    "\<forall>f. main_seeds (with_dk f w) tr params = main_keygen (with_dk f w) tr params d z"
    by blast
  then show ?thesis using main_keygen_split[of w tr params d z] by simp
next
  case False
  have "(\<forall>f. fst (main_seeds (with_dk f w) tr params) = tr @ [])
      \<or> (\<forall>f. fst (main_seeds (with_dk f w) tr params)
                = tr @ [Log Error (MissingParameters (arg_params w))])"
  proof (cases "py_get params ''d'' JNull")
    case d: (Returns dj)
    show ?thesis
    proof (cases "py_get params ''z'' JNull")
      case z: (Returns zj)
      show ?thesis
      proof (cases "dj = JNull \<or> zj = JNull")
        case True
        with d z show ?thesis by (simp add: main_seeds_def with_dk_fields)
      next
        case n: False
        show ?thesis
        proof (cases "py_fromhex dj")
          case hd: (Returns db)
          show ?thesis
          proof (cases "py_fromhex zj")
            case (Returns zb)
            have "\<forall>f. main_seeds (with_dk f w) tr params
                       = main_keygen (with_dk f w) tr params db zb"
              using d z n hd Returns by (simp add: main_seeds_def)
            with False show ?thesis by blast
          next
            case (Raises x)
            with d z n hd show ?thesis by (simp add: main_seeds_def)
          next
            case Blocks
            with d z n hd show ?thesis by (simp add: main_seeds_def)
          qed
        next
          case (Raises x)
          with d z n show ?thesis by (simp add: main_seeds_def)
        next
          case Blocks
          with d z n show ?thesis by (simp add: main_seeds_def)
        qed
      qed
    next
      case (Raises x)
      with d show ?thesis by (simp add: main_seeds_def)
    next
      case Blocks
      with d show ?thesis by (simp add: main_seeds_def)
    qed
  next
    case (Raises x)
    then show ?thesis by (simp add: main_seeds_def)
  next
    case Blocks
    then show ?thesis by (simp add: main_seeds_def)
  qed
  then show ?thesis
  proof
    assume "\<forall>f. fst (main_seeds (with_dk f w) tr params) = tr @ []"
    then show ?thesis by (rule fixed_split) simp
  next
    assume "\<forall>f. fst (main_seeds (with_dk f w) tr params)
                = tr @ [Log Error (MissingParameters (arg_params w))]"
    then show ?thesis by (rule fixed_split) simp
  qed
qed

lemma main_start_with_dk: "main_start (with_dk f w) = main_start w"
  by (simp add: main_start_def with_dk_fields)

lemma main_split:
  "\<exists>pre. (\<forall>e \<in> set pre. before_decaps e) \<and>
     (\<forall>f. \<exists>post. fst (main (with_dk f w)) = pre @ post \<and>
        (post = [] \<or> (\<exists>dk c. post = decaps_tail w dk c)))"
proof (cases "load_json w (arg_params w)")
  case (Returns params)
  have m: "\<forall>f. main (with_dk f w) = main_seeds (with_dk f w) (main_start w) params"
    using Returns by (simp add: main_def with_dk_fields main_start_with_dk)
  from main_seeds_split[of w "main_start w" params] obtain pre0 where
    p0: "\<forall>e \<in> set pre0. before_decaps e"
    and l: "\<forall>f. \<exists>post. fst (main_seeds (with_dk f w) (main_start w) params)
                = main_start w @ pre0 @ post \<and>
              (post = [] \<or> (\<exists>dk c. post = decaps_tail w dk c))"
    by blast
  have "\<forall>e \<in> set (main_start w @ pre0). before_decaps e"
    using p0 by (auto simp: main_start_def)
  moreover have "\<forall>f. \<exists>post. fst (main (with_dk f w)) = (main_start w @ pre0) @ post \<and>
              (post = [] \<or> (\<exists>dk c. post = decaps_tail w dk c))"
    using l by (simp add: m)
  ultimately show ?thesis by blast
next
  case (Raises x)
  have "\<forall>f. fst (main (with_dk f w)) =
          [] @ (main_start w @
                (if x = FileNotFoundError then [Log Error (ParamFileNotFound (arg_params w))]
                 else []))"
    using Raises by (simp add: main_def with_dk_fields main_start_with_dk)
  then have "\<exists>pre. (\<forall>e \<in> set pre. before_decaps e) \<and>
     (\<forall>f. \<exists>post. fst (main (with_dk f w)) = [] @ pre @ post \<and>
        (post = [] \<or> (\<exists>dk c. post = decaps_tail w dk c)))"
    by (rule fixed_split) (simp add: main_start_def)
  then show ?thesis by simp
next
  case Blocks
  have "\<forall>f. fst (main (with_dk f w)) = [] @ main_start w"
    using Blocks by (simp add: main_def with_dk_fields main_start_with_dk)
  then have "\<exists>pre. (\<forall>e \<in> set pre. before_decaps e) \<and>
     (\<forall>f. \<exists>post. fst (main (with_dk f w)) = [] @ pre @ post \<and>
        (post = [] \<or> (\<exists>dk c. post = decaps_tail w dk c)))"
    by (rule fixed_split) (simp add: main_start_def)
  then show ?thesis by simp
qed

lemma with_dk_same: "with_dk (\<lambda>dk. dk) w = w"
proof -
  have "(\<lambda>d z. case KeyGen w d z of
                 Returns (ek, dk) \<Rightarrow> Returns (ek, dk)
               | Raises e \<Rightarrow> Raises e
               | Blocks \<Rightarrow> Blocks) = KeyGen w"
    by (intro ext) (simp split: outcome.splits prod.splits)
  then show ?thesis by (simp add: with_dk_def)
qed

lemma takeWhile_split:
  assumes "\<forall>e \<in> set pre. before_decaps e" and "post = [] \<or> (\<exists>dk c. post = decaps_tail w dk c)"
  shows "takeWhile before_decaps (pre @ post) = pre"
    and "dropWhile before_decaps (pre @ post) = post"
  using assms by (auto simp: decaps_tail_def takeWhile_append2 dropWhile_append2)

lemma main_before_decaps_with_dk:
  "takeWhile before_decaps (fst (main (with_dk f w))) = takeWhile before_decaps (fst (main w))"
proof -
  from main_split[of w] obtain pre where p: "\<forall>e \<in> set pre. before_decaps e"
    and l: "\<forall>f. \<exists>post. fst (main (with_dk f w)) = pre @ post \<and>
              (post = [] \<or> (\<exists>dk c. post = decaps_tail w dk c))"
    by blast
  from l obtain post1 where 1: "fst (main (with_dk f w)) = pre @ post1"
    "post1 = [] \<or> (\<exists>dk c. post1 = decaps_tail w dk c)" by blast
  from l obtain post2 where 2: "fst (main (with_dk (\<lambda>dk. dk) w)) = pre @ post2"
    "post2 = [] \<or> (\<exists>dk c. post2 = decaps_tail w dk c)" by blast
  show ?thesis
    using takeWhile_split(1)[OF p 1(2)] takeWhile_split(1)[OF p 2(2)] 1(1) 2(1)
    by (simp add: with_dk_same)
qed

lemma main_from_decaps:
  "dropWhile before_decaps (fst (main w)) = []
   \<or> (\<exists>dk c. dropWhile before_decaps (fst (main w)) = decaps_tail w dk c)"
proof -
  from main_split[of w] obtain pre where p: "\<forall>e \<in> set pre. before_decaps e"
    and l: "\<forall>f. \<exists>post. fst (main (with_dk f w)) = pre @ post \<and>
              (post = [] \<or> (\<exists>dk c. post = decaps_tail w dk c))"
    by blast
  from l obtain post where 2: "fst (main (with_dk (\<lambda>dk. dk) w)) = pre @ post"
    "post = [] \<or> (\<exists>dk c. post = decaps_tail w dk c)" by blast
  show ?thesis
    using takeWhile_split(2)[OF p 2(2)] 2 by (simp add: with_dk_same)
qed

text \<open>
  Claim C7. In every run, a byte string written to a socket is the first component
  \<open>ek\<close> of the pair that \<open>KeyGen\<close> returned for the seeds it was called with, and
  there is at most one such write. The second component \<open>dk\<close> is what \<open>Decaps\<close> is
  called with, and it goes nowhere else: replacing every \<open>dk\<close> by any other value
  leaves the bytes written to sockets and all events before the call of \<open>Decaps\<close>
  unchanged, and from that call on the run holds only the call itself and, when it
  returns, the two messages that log the shared secret it returned.
\<close>

theorem only_ek_is_written_to_a_socket:
  "(\<forall>data. SendAll data \<in> set (fst (main w)) \<longrightarrow>
      (\<exists>d z dk. KeyGenCall d z \<in> set (fst (main w)) \<and> KeyGen w d z = Returns (data, dk)))
   \<and> (\<forall>k c. DecapsCall k c \<in> set (fst (main w)) \<longrightarrow>
      (\<exists>d z ek. KeyGenCall d z \<in> set (fst (main w)) \<and> KeyGen w d z = Returns (ek, k)))
   \<and> length (socket_writes (fst (main w))) \<le> 1
   \<and> socket_writes (fst (main (with_dk f w))) = socket_writes (fst (main w))
   \<and> takeWhile before_decaps (fst (main (with_dk f w)))
       = takeWhile before_decaps (fst (main w))
   \<and> (dropWhile before_decaps (fst (main w)) = [] \<or>
       (\<exists>dk c. dropWhile before_decaps (fst (main w)) =
          DecapsCall dk c #
          (case Decaps w dk c of
             Returns alice_k \<Rightarrow>
               [Log Debug SharedSecretObtained, Log Debug (SharedSecretIs alice_k)]
           | _ \<Rightarrow> [])))"
proof (intro conjI allI impI)
  fix data
  assume s: "SendAll data \<in> set (fst (main w))"
  have "SendAll data \<notin> set (main_start w)" by (simp add: main_start_def)
  with s obtain kv d z ek dk where "keys_generated w kv d z ek dk"
    and "KeyGenCall d z \<in> set (fst (main w))" and "data = ek"
    using main_sending[of "SendAll data" w] by auto
  then show "\<exists>d z dk. KeyGenCall d z \<in> set (fst (main w)) \<and> KeyGen w d z = Returns (data, dk)"
    by (auto simp: keys_generated_def)
next
  fix k c
  assume s: "DecapsCall k c \<in> set (fst (main w))"
  have "DecapsCall k c \<notin> set (main_start w)" by (simp add: main_start_def)
  with s obtain kv d z ek dk where "keys_generated w kv d z ek dk"
    and "KeyGenCall d z \<in> set (fst (main w))" and "k = dk"
    using main_sending[of "DecapsCall k c" w] by auto
  then show "\<exists>d z ek. KeyGenCall d z \<in> set (fst (main w)) \<and> KeyGen w d z = Returns (ek, k)"
    by (auto simp: keys_generated_def)
next
  show "length (socket_writes (fst (main w))) \<le> 1"
    by (rule main_writes_length)
  show "socket_writes (fst (main (with_dk f w))) = socket_writes (fst (main w))"
    by (rule main_writes_with_dk)
  show "takeWhile before_decaps (fst (main (with_dk f w)))
       = takeWhile before_decaps (fst (main w))"
    by (rule main_before_decaps_with_dk)
  show "dropWhile before_decaps (fst (main w)) = [] \<or>
       (\<exists>dk c. dropWhile before_decaps (fst (main w)) =
          DecapsCall dk c #
          (case Decaps w dk c of
             Returns alice_k \<Rightarrow>
               [Log Debug SharedSecretObtained, Log Debug (SharedSecretIs alice_k)]
           | _ \<Rightarrow> []))"
    using main_from_decaps[of w] by (simp add: decaps_tail_def)
qed

lemma main_demo_world:
  "main demo_world =
     (trace_to_listen demo_world [0] [17] [0, 17] ''127.0.0.1'' 6000 @
      [Log Debug WaitingForBob] @
      fst (wait_for_bob_response demo_world (JInt 5000)) @
      [Log Debug GotBobResponse, DecapsCall [17, 0] (replicate 768 7),
       Log Debug SharedSecretObtained, Log Debug (SharedSecretIs (replicate 32 7))],
      Returns 0)"
  by (rule main_success[OF demo_world_ek_delivered, of "[(''port'', JInt 5000)]"])
     (simp_all add: demo_world_wait, simp_all add: demo_config_def demo_world_def)

theorem only_ek_is_written_to_a_socket_witness:
  "SendAll [0, 17] \<in> set (fst (main demo_world))
   \<and> DecapsCall [17, 0] (replicate 768 7) \<in> set (fst (main demo_world))
   \<and> (\<exists>d z dk. KeyGenCall d z \<in> set (fst (main demo_world))
                 \<and> KeyGen demo_world d z = Returns ([0, 17], dk))
   \<and> (\<exists>d z ek. KeyGenCall d z \<in> set (fst (main demo_world))
                 \<and> KeyGen demo_world d z = Returns (ek, [17, 0]))
   \<and> socket_writes (fst (main (with_dk rev demo_world)))
       = socket_writes (fst (main demo_world))
   \<and> takeWhile before_decaps (fst (main (with_dk rev demo_world)))
       = takeWhile before_decaps (fst (main demo_world))"
proof -
  have s: "SendAll [0, 17] \<in> set (fst (main demo_world))"
    and d: "DecapsCall [17, 0] (replicate 768 7) \<in> set (fst (main demo_world))"
    by (simp_all add: main_demo_world trace_to_listen_def)
  show ?thesis
    using only_ek_is_written_to_a_socket[of demo_world rev] s d by blast
qed

end
